theory Spec2Isabelle
  imports Complex_Main
begin

section \<open>Dynamic time warping: cost table and backtracking (dtw.ipynb)\<close>

subsection \<open>Table cells: a float that is a finite number or +inf\<close>

text \<open>
  The cells of the numpy table are float64 values. A cell is modelled as a finite real
  number or \<open>numpy.inf\<close>; NaN and \<open>-inf\<close> do not arise from finite distances that are never
  negative. Comparison extends to \<open>PInf\<close> as in IEEE arithmetic: every finite value is
  below \<open>inf\<close>, and \<open>inf < inf\<close> is false.
\<close>

datatype cost = Fin real | PInf

instantiation cost :: "{zero, linorder}"
begin

definition zero_cost :: cost where
  "zero_cost = Fin 0"

fun less_eq_cost :: "cost \<Rightarrow> cost \<Rightarrow> bool" where
  "less_eq_cost (Fin a) (Fin b) = (a \<le> b)"
| "less_eq_cost (Fin a) PInf = True"
| "less_eq_cost PInf (Fin b) = False"
| "less_eq_cost PInf PInf = True"

fun less_cost :: "cost \<Rightarrow> cost \<Rightarrow> bool" where
  "less_cost (Fin a) (Fin b) = (a < b)"
| "less_cost (Fin a) PInf = True"
| "less_cost PInf v = False"

instance
proof
  fix x y z :: cost
  show "(x < y) = (x \<le> y \<and> \<not> y \<le> x)"
    by (cases x; cases y) auto
  show "x \<le> x"
    by (cases x) auto
  show "x \<le> y \<Longrightarrow> y \<le> z \<Longrightarrow> x \<le> z"
    by (cases x; cases y; cases z) auto
  show "x \<le> y \<Longrightarrow> y \<le> x \<Longrightarrow> x = y"
    by (cases x; cases y) auto
  show "x \<le> y \<or> y \<le> x"
    by (cases x; cases y) auto
qed

end

text \<open>
  The addition of two float64 values, \<open>d + min(...)\<close> in the source, is not the addition of
  real numbers: the sum is rounded, and a sum beyond the largest float64 is \<open>inf\<close>, the very
  value the backtracker tests for. The addition is therefore a parameter \<open>fadd\<close> of the
  model, and each theorem names what it uses of it: that it is commutative, that a finite
  value plus \<open>inf\<close> is \<open>inf\<close>, that adding a distance that is not negative does not make a
  value smaller. IEEE addition has all three properties.

  \<open>float_add\<close> is the value of the parameter in the concrete runs below: the exact sum,
  and \<open>inf\<close> from \<open>2^1024 - 2^970\<close> on, where round-to-nearest overflows. It leaves out the
  rounding of smaller sums, so it is float64 addition wherever that is exact, as on the
  small integers and the powers of two of the concrete runs. It is used with \<open>euclidean\<close>
  only, whose values are never negative, so overflow towards \<open>-inf\<close> does not occur.
\<close>

fun float_add :: "cost \<Rightarrow> cost \<Rightarrow> cost" where
  "float_add (Fin a) (Fin b) = (if 2 ^ 1024 - 2 ^ 970 \<le> a + b then PInf else Fin (a + b))"
| "float_add (Fin a) PInf = PInf"
| "float_add PInf v = PInf"

text \<open>Python's built-in \<open>min(a, b, c)\<close>: the value of the smallest argument.\<close>

definition min3 :: "cost \<Rightarrow> cost \<Rightarrow> cost \<Rightarrow> cost" where
  "min3 a b c = min (min a b) c"

subsection \<open>The table and numpy indexing\<close>

text \<open>
  A two-dimensional numpy array is a list of rows. Reading it with an index \<open>k\<close> below zero
  counts from the end (\<open>k + n\<close>), and an index outside \<open>-n .. n-1\<close> raises \<open>IndexError\<close>.
  The second error of the backtracker is Python's \<open>UnboundLocalError\<close>: the local variable
  \<open>step\<close> is read before any branch has assigned it.
\<close>

type_synonym table = "cost list list"

datatype error = IndexError | UnboundLocalError

definition np_index :: "nat \<Rightarrow> int \<Rightarrow> error + nat" where
  "np_index n k =
     (if 0 \<le> k \<and> k < int n then Inr (nat k)
      else if - int n \<le> k \<and> k < 0 then Inr (nat (k + int n))
      else Inl IndexError)"

definition tget :: "table \<Rightarrow> int \<Rightarrow> int \<Rightarrow> error + cost" where
  "tget t i j =
     (case np_index (length t) i of
        Inl e \<Rightarrow> Inl e
      | Inr r \<Rightarrow>
          (case np_index (length (t ! r)) j of
             Inl e \<Rightarrow> Inl e
           | Inr c \<Rightarrow> Inr (t ! r ! c)))"

text \<open>\<open>numpy.zeros((r, c))\<close> and the assignment \<open>table[i, j] = v\<close> at an index in range.\<close>

definition zeros :: "nat \<Rightarrow> nat \<Rightarrow> table" where
  "zeros r c = replicate r (replicate c 0)"

definition set_cell :: "table \<Rightarrow> nat \<Rightarrow> nat \<Rightarrow> cost \<Rightarrow> table" where
  "set_cell t i j v = t[i := (t ! i)[j := v]]"

text \<open>The slice assignments \<open>table[1:, 0] = v\<close> and \<open>table[0, 1:] = v\<close>.\<close>

definition set_left_column :: "table \<Rightarrow> cost \<Rightarrow> table" where
  "set_left_column t v = take 1 t @ map (\<lambda>row. row[0 := v]) (drop 1 t)"

definition set_top_row :: "table \<Rightarrow> cost \<Rightarrow> table" where
  "set_top_row t v = t[0 := take 1 (t ! 0) @ map (\<lambda>_. v) (drop 1 (t ! 0))]"

subsection \<open>Step 1: cost table construction (\<open>dtw_table\<close>)\<close>

text \<open>
  The source calls \<open>scipy.spatial.distance.euclidean\<close> on the two observations. The library
  function is a parameter \<open>distance\<close> of the model, with finite values; \<open>euclidean\<close> below is
  its value on scalars, the absolute difference. The float addition is the parameter
  \<open>fadd\<close>. The body of the inner loop is \<open>fill_cell\<close>, the inner loop over \<open>j\<close> is \<open>fill_row\<close>;
  the indices \<open>i-1\<close> and \<open>j-1\<close> are in range there since both loops start at 1.
\<close>

definition euclidean :: "real \<Rightarrow> real \<Rightarrow> real" where
  "euclidean u v = \<bar>u - v\<bar>"

definition fill_cell ::
  "('a \<Rightarrow> 'b \<Rightarrow> real) \<Rightarrow> (cost \<Rightarrow> cost \<Rightarrow> cost) \<Rightarrow> 'a list \<Rightarrow> 'b list \<Rightarrow> nat \<Rightarrow> nat \<Rightarrow>
   table \<Rightarrow> table" where
  "fill_cell distance fadd x y i j t =
     (let d = Fin (distance (x ! (i - 1)) (y ! (j - 1)))
      in set_cell t i j (fadd d (min3 (t ! (i - 1) ! j) (t ! i ! (j - 1)) (t ! (i - 1) ! (j - 1)))))"

definition fill_row ::
  "('a \<Rightarrow> 'b \<Rightarrow> real) \<Rightarrow> (cost \<Rightarrow> cost \<Rightarrow> cost) \<Rightarrow> 'a list \<Rightarrow> 'b list \<Rightarrow> nat \<Rightarrow>
   table \<Rightarrow> table" where
  "fill_row distance fadd x y i t = fold (fill_cell distance fadd x y i) [1..<length y + 1] t"

definition dtw_table_with ::
  "('a \<Rightarrow> 'b \<Rightarrow> real) \<Rightarrow> (cost \<Rightarrow> cost \<Rightarrow> cost) \<Rightarrow> 'a list \<Rightarrow> 'b list \<Rightarrow> table" where
  "dtw_table_with distance fadd x y =
     (let nx = length x;
          ny = length y;
          table = zeros (nx + 1) (ny + 1);
          table = set_left_column table PInf;
          table = set_top_row table PInf
      in fold (fill_row distance fadd x y) [1..<nx + 1] table)"

definition dtw_table :: "real list \<Rightarrow> real list \<Rightarrow> table" where
  "dtw_table x y = dtw_table_with euclidean float_add x y"

subsection \<open>Step 2: backtracking (\<open>dtw\<close>)\<close>

text \<open>
  One iteration of the \<open>while\<close> loop is \<open>dtw_body\<close>. The variable \<open>step\<close> is local to the
  function, not to the iteration: it is unbound before the first assignment and keeps its
  value from one iteration to the next, so it is an argument of the body (\<open>None\<close> when
  unbound). The three reads go through numpy's indexing, so \<open>i - 1 = -1\<close> reads the last
  row. The loop is a partial function: \<open>None\<close> is a run that never returns (the list
  \<open>path\<close> grows in every iteration, and the model puts no bound on its length).
\<close>

type_synonym step = "int \<times> int"

definition dtw_body :: "table \<Rightarrow> int \<Rightarrow> int \<Rightarrow> step option \<Rightarrow> error + step" where
  "dtw_body table i j step0 =
     (case tget table (i - 1) j of
        Inl e \<Rightarrow> Inl e
      | Inr a \<Rightarrow>
     let (minval, step) = (if a < PInf then (a, Some (i - 1, j)) else (PInf, step0)) in
     (case tget table i (j - 1) of
        Inl e \<Rightarrow> Inl e
      | Inr b \<Rightarrow>
     let (minval, step) = (if b < minval then (b, Some (i, j - 1)) else (minval, step)) in
     (case tget table (i - 1) (j - 1) of
        Inl e \<Rightarrow> Inl e
      | Inr c \<Rightarrow>
     let (minval, step) = (if c < minval then (c, Some (i - 1, j - 1)) else (minval, step)) in
     (case step of
        None \<Rightarrow> Inl UnboundLocalError
      | Some s \<Rightarrow> Inr s))))"

partial_function (option) dtw_loop ::
  "table \<Rightarrow> int \<Rightarrow> int \<Rightarrow> step list \<Rightarrow> step option \<Rightarrow> (error + step list) option" where
  "dtw_loop table i j path step =
     (if i > 0 \<or> j > 0 then
        (case dtw_body table i j step of
           Inl e \<Rightarrow> Some (Inl e)
         | Inr s \<Rightarrow> dtw_loop table (fst s) (snd s) (s # path) (Some s))
      else Some (Inr path))"

declare dtw_loop.simps [code]

definition dtw :: "'a list \<Rightarrow> 'b list \<Rightarrow> table \<Rightarrow> (error + step list) option" where
  "dtw x y table =
     (let i = int (length x); j = int (length y)
      in dtw_loop table i j [(i, j)] None)"

subsection \<open>The recurrence and the backward walk as functions\<close>

text \<open>
  The recurrence as the specification words it, as a function of the indices: \<open>spec_cell\<close>
  is what cell \<open>(i, j)\<close> of the table must hold. The table built by the loops of
  \<open>dtw_table\<close> is compared with it below.
\<close>

fun spec_cell ::
  "('a \<Rightarrow> 'b \<Rightarrow> real) \<Rightarrow> (cost \<Rightarrow> cost \<Rightarrow> cost) \<Rightarrow> 'a list \<Rightarrow> 'b list \<Rightarrow> nat \<Rightarrow> nat \<Rightarrow> cost" where
  "spec_cell distance fadd x y 0 0 = 0"
| "spec_cell distance fadd x y (Suc i) 0 = PInf"
| "spec_cell distance fadd x y 0 (Suc j) = PInf"
| "spec_cell distance fadd x y (Suc i) (Suc j) =
     fadd (Fin (distance (x ! i) (y ! j)))
       (min3 (spec_cell distance fadd x y i (Suc j)) (spec_cell distance fadd x y (Suc i) j)
             (spec_cell distance fadd x y i j))"

text \<open>
  \<open>filled t i m\<close>: the table has its shape, and the border, the rows above \<open>i\<close> and the
  first \<open>m\<close> cells of row \<open>i\<close> hold the values of the recurrence. It is the invariant of
  the two loops.
\<close>

definition filled ::
  "('a \<Rightarrow> 'b \<Rightarrow> real) \<Rightarrow> (cost \<Rightarrow> cost \<Rightarrow> cost) \<Rightarrow> 'a list \<Rightarrow> 'b list \<Rightarrow> table \<Rightarrow> nat \<Rightarrow> nat \<Rightarrow> bool" where
  "filled distance fadd x y t i m \<longleftrightarrow>
     length t = length x + 1 \<and>
     (\<forall>r \<le> length x. length (t ! r) = length y + 1) \<and>
     (\<forall>r \<le> length x. \<forall>c \<le> length y.
        (r < i \<or> (r = i \<and> c \<le> m) \<or> c = 0 \<or> r = 0) \<longrightarrow>
        t ! r ! c = spec_cell distance fadd x y r c)"

text \<open>
  \<open>walkable i j\<close>: the backtracker can leave the state \<open>(i, j)\<close>. It is the origin, where
  the loop stops, or an interior cell with a finite value among its three candidates.
  \<open>prev_cell\<close> is the predecessor that one iteration selects at such a cell, read off the
  recurrence, and \<open>walk\<close> lists the cells visited before \<open>(i, j)\<close>, first to last.
\<close>

definition walkable ::
  "('a \<Rightarrow> 'b \<Rightarrow> real) \<Rightarrow> (cost \<Rightarrow> cost \<Rightarrow> cost) \<Rightarrow> 'a list \<Rightarrow> 'b list \<Rightarrow> nat \<Rightarrow> nat \<Rightarrow> bool" where
  "walkable distance fadd x y i j \<longleftrightarrow>
     (i = 0 \<and> j = 0) \<or>
     (0 < i \<and> 0 < j \<and>
      min3 (spec_cell distance fadd x y (i - 1) j) (spec_cell distance fadd x y i (j - 1))
           (spec_cell distance fadd x y (i - 1) (j - 1)) < PInf)"

definition prev_cell ::
  "('a \<Rightarrow> 'b \<Rightarrow> real) \<Rightarrow> (cost \<Rightarrow> cost \<Rightarrow> cost) \<Rightarrow> 'a list \<Rightarrow> 'b list \<Rightarrow> nat \<Rightarrow> nat \<Rightarrow>
   nat \<times> nat" where
  "prev_cell distance fadd x y i j =
     (let a = spec_cell distance fadd x y (i - 1) j;
          b = spec_cell distance fadd x y i (j - 1);
          c = spec_cell distance fadd x y (i - 1) (j - 1)
      in if c < min a b then (i - 1, j - 1)
         else if b < a then (i, j - 1)
         else (i - 1, j))"

function walk ::
  "('a \<Rightarrow> 'b \<Rightarrow> real) \<Rightarrow> (cost \<Rightarrow> cost \<Rightarrow> cost) \<Rightarrow> 'a list \<Rightarrow> 'b list \<Rightarrow> nat \<Rightarrow> nat \<Rightarrow>
   (nat \<times> nat) list" where
  "walk distance fadd x y i j =
     (if i = 0 \<or> j = 0 then []
      else walk distance fadd x y (fst (prev_cell distance fadd x y i j))
             (snd (prev_cell distance fadd x y i j))
           @ [prev_cell distance fadd x y i j])"
  by pat_completeness auto
termination
  by (relation "measure (\<lambda>(distance, fadd, x, y, i, j). i + j)")
    (auto simp: prev_cell_def Let_def)

declare walk.simps [simp del]

definition of_cell :: "nat \<times> nat \<Rightarrow> step" where
  "of_cell p = (int (fst p), int (snd p))"

definition swap_step :: "step \<Rightarrow> step" where
  "swap_step s = (snd s, fst s)"

text \<open>The distance function with its two arguments exchanged.\<close>

definition swap_args :: "('a \<Rightarrow> 'b \<Rightarrow> real) \<Rightarrow> 'b \<Rightarrow> 'a \<Rightarrow> real" where
  "swap_args distance b a = distance a b"

section \<open>The table built by the loops is the table of the recurrence\<close>

lemma cost_simps [simp]:
  "(0::cost) = Fin 0" 
  by (simp add: zero_cost_def)

lemma set_cell_length: "length (set_cell t i j v) = length t"
  by (simp add: set_cell_def)

lemma set_cell_row_length: "length (set_cell t i j v ! r) = length (t ! r)"
  by (cases "r = i"; cases "i < length t") (simp_all add: set_cell_def list_update_beyond)

lemma set_cell_nth:
  "i < length t \<Longrightarrow> j < length (t ! i) \<Longrightarrow>
   set_cell t i j v ! r ! c = (if r = i \<and> c = j then v else t ! r ! c)"
  by (cases "r = i") (simp_all add: set_cell_def nth_list_update)

lemma filled_init:
  "filled d fadd x y (set_top_row (set_left_column (zeros (length x + 1) (length y + 1)) PInf) PInf) 0 (length y)"
  unfolding filled_def
proof (intro conjI allI impI)
  let ?t = "set_top_row (set_left_column (zeros (length x + 1) (length y + 1)) PInf) PInf"
  show "length ?t = length x + 1"
    by (simp add: set_top_row_def set_left_column_def zeros_def)
  fix r assume r: "r \<le> length x"
  show "length (?t ! r) = length y + 1"
    using r by (cases r) (simp_all add: set_top_row_def set_left_column_def zeros_def nth_append)
  fix c assume c: "c \<le> length y" and h: "r < 0 \<or> r = 0 \<and> c \<le> length y \<or> c = 0 \<or> r = 0"
  show "?t ! r ! c = spec_cell d fadd x y r c"
  proof (cases r)
    case 0
    then show ?thesis using c
      by (cases c) (simp_all add: set_top_row_def set_left_column_def zeros_def nth_append)
  next
    case (Suc r')
    with h have "c = 0" by simp
    with Suc r show ?thesis
      by (simp add: set_top_row_def set_left_column_def zeros_def nth_append)
  qed
qed

lemma filled_fill_cell:
  assumes f: "filled d fadd x y t i m" and i: "1 \<le> i" "i \<le> length x" and m: "m < length y"
  shows "filled d fadd x y (fill_cell d fadd x y i (Suc m) t) i (Suc m)"
proof -
  obtain i' where i': "i = Suc i'" using i by (cases i) auto
  have len: "length t = length x + 1" and rows: "\<And>r. r \<le> length x \<Longrightarrow> length (t ! r) = length y + 1"
    and cells: "\<And>r c. r \<le> length x \<Longrightarrow> c \<le> length y \<Longrightarrow> (r < i \<or> (r = i \<and> c \<le> m) \<or> c = 0 \<or> r = 0) \<Longrightarrow>
        t ! r ! c = spec_cell d fadd x y r c"
    using f unfolding filled_def by auto
  have a: "t ! (i - 1) ! Suc m = spec_cell d fadd x y i' (Suc m)"
    using cells[of i' "Suc m"] i m i' by simp
  have b: "t ! i ! (Suc m - 1) = spec_cell d fadd x y (Suc i') m"
    using cells[of i m] i m i' by simp
  have c: "t ! (i - 1) ! (Suc m - 1) = spec_cell d fadd x y i' m"
    using cells[of i' m] i m i' by simp
  have new: "fill_cell d fadd x y i (Suc m) t = set_cell t i (Suc m) (spec_cell d fadd x y i (Suc m))"
    unfolding fill_cell_def Let_def a b c using i' by simp
  show ?thesis
    unfolding filled_def new
  proof (intro conjI allI impI)
    show "length (set_cell t i (Suc m) (spec_cell d fadd x y i (Suc m))) = length x + 1"
      by (simp add: set_cell_length len)
    fix r assume r: "r \<le> length x"
    show "length (set_cell t i (Suc m) (spec_cell d fadd x y i (Suc m)) ! r) = length y + 1"
      using rows[OF r] by (simp add: set_cell_row_length)
    fix c assume c: "c \<le> length y" and h: "r < i \<or> r = i \<and> c \<le> Suc m \<or> c = 0 \<or> r = 0"
    show "set_cell t i (Suc m) (spec_cell d fadd x y i (Suc m)) ! r ! c = spec_cell d fadd x y r c"
    proof (cases "r = i \<and> c = Suc m")
      case True
      then show ?thesis using i m rows[of i] len by (simp add: set_cell_nth)
    next
      case False
      then have "set_cell t i (Suc m) (spec_cell d fadd x y i (Suc m)) ! r ! c = t ! r ! c"
        using i m rows[of i] len by (auto simp: set_cell_nth)
      moreover have "t ! r ! c = spec_cell d fadd x y r c"
        using cells[of r c] r c h False by auto
      ultimately show ?thesis by simp
    qed
  qed
qed

lemma filled_fill_cells:
  assumes f: "filled d fadd x y t i 0" and i: "1 \<le> i" "i \<le> length x"
  shows "m \<le> length y \<Longrightarrow> filled d fadd x y (fold (fill_cell d fadd x y i) [1..<Suc m] t) i m"
proof (induction m)
  case 0
  then show ?case using f by simp
next
  case (Suc m)
  then have "filled d fadd x y (fold (fill_cell d fadd x y i) [1..<Suc m] t) i m" by simp
  from filled_fill_cell[OF this i] Suc.prems show ?case by simp
qed

lemma filled_next_row:
  assumes "filled d fadd x y t i (length y)"
  shows "filled d fadd x y t (Suc i) 0"
  using assms unfolding filled_def by (auto simp: less_Suc_eq)

lemma filled_fill_row:
  assumes "filled d fadd x y t i (length y)" and "i < length x"
  shows "filled d fadd x y (fill_row d fadd x y (Suc i) t) (Suc i) (length y)"
  unfolding fill_row_def using filled_fill_cells[OF filled_next_row[OF assms(1)], of "length y"] assms(2)
  by simp

lemma filled_fill_rows:
  assumes "filled d fadd x y t 0 (length y)"
  shows "k \<le> length x \<Longrightarrow> filled d fadd x y (fold (fill_row d fadd x y) [1..<Suc k] t) k (length y)"
proof (induction k)
  case 0
  then show ?case using assms by simp
next
  case (Suc k)
  then have "filled d fadd x y (fold (fill_row d fadd x y) [1..<Suc k] t) k (length y)" by simp
  from filled_fill_row[OF this] Suc.prems show ?case by simp
qed

lemma filled_dtw_table:
  "filled d fadd x y (dtw_table_with d fadd x y) (length x) (length y)"
  unfolding dtw_table_with_def Let_def
  using filled_fill_rows[OF filled_init, where k = "length x" and d = d and fadd = fadd
      and x = x and y = y] by simp

lemma dtw_table_length: "length (dtw_table_with d fadd x y) = length x + 1"
  using filled_dtw_table[of d fadd x y] unfolding filled_def by simp

lemma dtw_table_row_length: "i \<le> length x \<Longrightarrow> length (dtw_table_with d fadd x y ! i) = length y + 1"
  using filled_dtw_table[of d fadd x y] unfolding filled_def by simp

lemma dtw_table_cell:
  "i \<le> length x \<Longrightarrow> j \<le> length y \<Longrightarrow> dtw_table_with d fadd x y ! i ! j = spec_cell d fadd x y i j"
  using filled_dtw_table[of d fadd x y] unfolding filled_def by (metis le_neq_implies_less)

section \<open>The backtracker on a table built by \<open>dtw_table\<close>\<close>

lemma min3_finite: "min3 a b c \<noteq> PInf \<longleftrightarrow> a \<noteq> PInf \<or> b \<noteq> PInf \<or> c \<noteq> PInf"
  by (cases a; cases b; cases c) (simp_all add: min3_def min_def)

lemma less_PInf: "v < PInf \<longleftrightarrow> v \<noteq> PInf"
  by (cases v) simp_all

lemma spec_cell_border:
  "spec_cell d fadd x y i j < PInf \<Longrightarrow> (i = 0 \<and> j = 0) \<or> (0 < i \<and> 0 < j)"
  by (cases i; cases j) simp_all

lemma spec_cell_absorb:
  assumes "\<forall>r. fadd (Fin r) PInf = PInf" and "0 < i" and "0 < j"
    and "spec_cell d fadd x y i j < PInf"
  shows "min3 (spec_cell d fadd x y (i - 1) j) (spec_cell d fadd x y i (j - 1))
              (spec_cell d fadd x y (i - 1) (j - 1)) < PInf"
proof (rule ccontr)
  assume "\<not> ?thesis"
  then have m: "min3 (spec_cell d fadd x y (i - 1) j) (spec_cell d fadd x y i (j - 1))
              (spec_cell d fadd x y (i - 1) (j - 1)) = PInf"
    by (simp add: less_PInf)
  obtain i' j' where "i = Suc i'" "j = Suc j'"
    using assms(2,3) by (cases i; cases j) auto
  then have "spec_cell d fadd x y i j = PInf"
    using m assms(1) by simp
  with assms(4) show False by simp
qed

lemma walkable_cell:
  assumes "\<forall>r. fadd (Fin r) PInf = PInf" and "spec_cell d fadd x y i j < PInf"
  shows "walkable d fadd x y i j"
  using spec_cell_border[OF assms(2)] spec_cell_absorb[where fadd = fadd, OF assms(1) _ _ assms(2)]
  by (auto simp: walkable_def)

lemma np_index_nat: "k < n \<Longrightarrow> np_index n (int k) = Inr k"
  by (simp add: np_index_def)

lemma tget_dtw_table:
  "i \<le> length x \<Longrightarrow> j \<le> length y \<Longrightarrow>
   tget (dtw_table_with d fadd x y) (int i) (int j) = Inr (spec_cell d fadd x y i j)"
  by (simp add: tget_def np_index_nat dtw_table_length dtw_table_row_length dtw_table_cell)

lemma prev_cell_cases:
  "prev_cell d fadd x y i j = (i - 1, j) \<or> prev_cell d fadd x y i j = (i, j - 1) \<or>
   prev_cell d fadd x y i j = (i - 1, j - 1)"
  by (simp add: prev_cell_def Let_def)

lemma prev_cell_value:
  "spec_cell d fadd x y (fst (prev_cell d fadd x y i j)) (snd (prev_cell d fadd x y i j)) =
   min3 (spec_cell d fadd x y (i - 1) j) (spec_cell d fadd x y i (j - 1))
        (spec_cell d fadd x y (i - 1) (j - 1))"
  by (auto simp: prev_cell_def Let_def min3_def min_def)

lemma prev_cell_walkable:
  assumes "\<forall>r. fadd (Fin r) PInf = PInf" and "0 < i" and "0 < j"
    and "walkable d fadd x y i j"
  shows "walkable d fadd x y (fst (prev_cell d fadd x y i j)) (snd (prev_cell d fadd x y i j))"
proof (rule walkable_cell[where fadd = fadd, OF assms(1)])
  show "spec_cell d fadd x y (fst (prev_cell d fadd x y i j)) (snd (prev_cell d fadd x y i j)) < PInf"
    unfolding prev_cell_value using assms(2-4) by (simp add: walkable_def)
qed

lemma prev_cell_le:
  "fst (prev_cell d fadd x y i j) \<le> i \<and> snd (prev_cell d fadd x y i j) \<le> j"
  using prev_cell_cases[of d fadd x y i j] by auto

lemma spec_cell_step:
  assumes "0 < i" "0 < j"
  shows "spec_cell d fadd x y i j =
         fadd (Fin (d (x ! (i - 1)) (y ! (j - 1))))
           (spec_cell d fadd x y (fst (prev_cell d fadd x y i j)) (snd (prev_cell d fadd x y i j)))"
  using assms by (cases i; cases j) (simp_all add: prev_cell_value)

lemma dtw_body_reads:
  assumes "tget t (i - 1) j = Inr a" "tget t i (j - 1) = Inr b" "tget t (i - 1) (j - 1) = Inr c"
  shows "dtw_body t i j s =
     (if c < min a b then Inr (i - 1, j - 1)
      else if b < a then Inr (i, j - 1)
      else if a < PInf then Inr (i - 1, j)
      else (case s of None \<Rightarrow> Inl UnboundLocalError | Some st \<Rightarrow> Inr st))"
  unfolding dtw_body_def assms
  by (cases a; cases b; cases c) (auto simp: min_def)

lemma tget_candidates:
  assumes i: "0 < i" "i \<le> length x" and j: "0 < j" "j \<le> length y"
  shows "tget (dtw_table_with d fadd x y) (int i - 1) (int j) = Inr (spec_cell d fadd x y (i - 1) j)"
    and "tget (dtw_table_with d fadd x y) (int i) (int j - 1) = Inr (spec_cell d fadd x y i (j - 1))"
    and "tget (dtw_table_with d fadd x y) (int i - 1) (int j - 1) =
         Inr (spec_cell d fadd x y (i - 1) (j - 1))"
proof -
  show "tget (dtw_table_with d fadd x y) (int i - 1) (int j) = Inr (spec_cell d fadd x y (i - 1) j)"
    using tget_dtw_table[of "i - 1" x j y d fadd] i j by (simp add: of_nat_diff)
  show "tget (dtw_table_with d fadd x y) (int i) (int j - 1) = Inr (spec_cell d fadd x y i (j - 1))"
    using tget_dtw_table[of i x "j - 1" y d fadd] i j by (simp add: of_nat_diff)
  show "tget (dtw_table_with d fadd x y) (int i - 1) (int j - 1) =
         Inr (spec_cell d fadd x y (i - 1) (j - 1))"
    using tget_dtw_table[of "i - 1" x "j - 1" y d fadd] i j by (simp add: of_nat_diff)
qed

lemma dtw_body_interior:
  assumes i: "0 < i" "i \<le> length x" and j: "0 < j" "j \<le> length y"
    and w: "walkable d fadd x y i j"
  shows "dtw_body (dtw_table_with d fadd x y) (int i) (int j) s =
         Inr (of_cell (prev_cell d fadd x y i j))"
proof -
  have fin: "min3 (spec_cell d fadd x y (i - 1) j) (spec_cell d fadd x y i (j - 1))
                  (spec_cell d fadd x y (i - 1) (j - 1)) \<noteq> PInf"
    using w i j by (simp add: walkable_def less_PInf)
  show ?thesis
    using fin i j unfolding dtw_body_reads[OF tget_candidates[OF i j]]
    by (simp add: prev_cell_def Let_def of_cell_def min3_finite less_PInf of_nat_diff)
qed

lemma dtw_body_no_candidate:
  assumes i: "0 < i" "i \<le> length x" and j: "0 < j" "j \<le> length y"
    and w: "\<not> walkable d fadd x y i j"
  shows "dtw_body (dtw_table_with d fadd x y) (int i) (int j) None = Inl UnboundLocalError"
proof -
  have "min3 (spec_cell d fadd x y (i - 1) j) (spec_cell d fadd x y i (j - 1))
             (spec_cell d fadd x y (i - 1) (j - 1)) = PInf"
    using w i j by (simp add: walkable_def less_PInf)
  then have "spec_cell d fadd x y (i - 1) j = PInf" "spec_cell d fadd x y i (j - 1) = PInf"
    "spec_cell d fadd x y (i - 1) (j - 1) = PInf"
    using min3_finite by blast+
  then show ?thesis
    unfolding dtw_body_reads[OF tget_candidates[OF i j]] by simp
qed

lemma dtw_loop_walk:
  assumes "\<forall>r. fadd (Fin r) PInf = PInf" and "i \<le> length x" and "j \<le> length y"
    and "walkable d fadd x y i j"
  shows "dtw_loop (dtw_table_with d fadd x y) (int i) (int j) acc s =
         Some (Inr (map of_cell (walk d fadd x y i j) @ acc))"
  using assms
proof (induction d fadd x y i j arbitrary: acc s rule: walk.induct)
  case (1 d fadd x y i j)
  show ?case
  proof (cases "i = 0 \<or> j = 0")
    case True
    with "1.prems"(4) have "i = 0" "j = 0" by (auto simp: walkable_def)
    then show ?thesis by (subst dtw_loop.simps) (simp add: walk.simps)
  next
    case False
    then have pos: "0 < i" "0 < j" by auto
    let ?p = "prev_cell d fadd x y i j"
    have body: "dtw_body (dtw_table_with d fadd x y) (int i) (int j) s = Inr (of_cell ?p)"
      using dtw_body_interior pos "1.prems" by blast
    have le: "fst ?p \<le> length x" "snd ?p \<le> length y"
      using prev_cell_le[of d fadd x y i j] "1.prems" by auto
    have w: "walkable d fadd x y (fst ?p) (snd ?p)"
      using prev_cell_walkable[where fadd = fadd, OF "1.prems"(1) pos "1.prems"(4)] .
    have IH: "dtw_loop (dtw_table_with d fadd x y) (int (fst ?p)) (int (snd ?p)) (of_cell ?p # acc)
                (Some (of_cell ?p)) =
         Some (Inr (map of_cell (walk d fadd x y (fst ?p) (snd ?p)) @ of_cell ?p # acc))"
      using "1.IH"[OF False "1.prems"(1) le w] .
    have "dtw_loop (dtw_table_with d fadd x y) (int i) (int j) acc s =
          dtw_loop (dtw_table_with d fadd x y) (int (fst ?p)) (int (snd ?p)) (of_cell ?p # acc)
            (Some (of_cell ?p))"
      using pos by (subst dtw_loop.simps) (simp add: body of_cell_def)
    also note IH
    finally show ?thesis using False by (subst walk.simps) simp
  qed
qed

text \<open>
  On non-empty sequences the backtracker returns a path exactly when one of the three
  cells next to \<open>(Nx, Ny)\<close> is finite; otherwise \<open>step\<close> is unbound in the first iteration.
\<close>

lemma walkable_table:
  assumes "x \<noteq> []" "y \<noteq> []"
  shows "walkable d fadd x y (length x) (length y) \<longleftrightarrow>
         min3 (dtw_table_with d fadd x y ! (length x - 1) ! length y)
              (dtw_table_with d fadd x y ! length x ! (length y - 1))
              (dtw_table_with d fadd x y ! (length x - 1) ! (length y - 1)) < PInf"
  using assms by (simp add: walkable_def dtw_table_cell)

lemma dtw_nonempty:
  assumes "\<forall>r. fadd (Fin r) PInf = PInf" and "x \<noteq> []" and "y \<noteq> []"
    and "walkable d fadd x y (length x) (length y)"
  shows "dtw x y (dtw_table_with d fadd x y) =
         Some (Inr (map of_cell (walk d fadd x y (length x) (length y)) @
                    [(int (length x), int (length y))]))"
  unfolding dtw_def Let_def using assms by (simp add: dtw_loop_walk)

lemma dtw_no_candidate:
  assumes "x \<noteq> []" and "y \<noteq> []" and "\<not> walkable d fadd x y (length x) (length y)"
  shows "dtw x y (dtw_table_with d fadd x y) = Some (Inl UnboundLocalError)"
proof -
  have "dtw_body (dtw_table_with d fadd x y) (int (length x)) (int (length y)) None =
        Inl UnboundLocalError"
    using dtw_body_no_candidate[OF _ _ _ _ assms(3)] assms(1,2) by simp
  then show ?thesis
    unfolding dtw_def Let_def using assms(1) by (subst dtw_loop.simps) simp
qed

subsection \<open>Properties of the walk\<close>

lemma walk_origin: "walk d fadd x y 0 0 = []"
  by (simp add: walk.simps)

lemma walk_interior:
  "0 < i \<Longrightarrow> 0 < j \<Longrightarrow>
   walk d fadd x y i j =
   walk d fadd x y (fst (prev_cell d fadd x y i j)) (snd (prev_cell d fadd x y i j)) @
   [prev_cell d fadd x y i j]"
  by (subst walk.simps) simp

lemma prev_cell_origin:
  assumes "0 < i" "0 < j" "prev_cell d fadd x y i j = (0, 0)"
  shows "i = 1 \<and> j = 1"
  using prev_cell_cases[of d fadd x y i j] assms by auto

lemma walkable_origin: "walkable d fadd x y i j \<Longrightarrow> i = 0 \<or> j = 0 \<Longrightarrow> i = 0 \<and> j = 0"
  by (auto simp: walkable_def)

lemma walk_shape:
  assumes "\<forall>r. fadd (Fin r) PInf = PInf" and "0 < i" and "0 < j" and "walkable d fadd x y i j"
  shows "\<exists>r. walk d fadd x y i j = (0, 0) # r \<and> (\<forall>q \<in> set r. 0 < fst q \<and> 0 < snd q) \<and>
             hd (r @ [(i, j)]) = (1, 1)"
  using assms
proof (induction d fadd x y i j rule: walk.induct)
  case (1 d fadd x y i j)
  let ?p = "prev_cell d fadd x y i j"
  have pos: "0 < i" "0 < j" using "1.prems" by auto
  have w: "walk d fadd x y i j = walk d fadd x y (fst ?p) (snd ?p) @ [?p]"
    using walk_interior pos by blast
  have wp: "walkable d fadd x y (fst ?p) (snd ?p)"
    using prev_cell_walkable[where fadd = fadd, OF "1.prems"(1) pos "1.prems"(4)] .
  then have "(fst ?p = 0 \<and> snd ?p = 0) \<or> (0 < fst ?p \<and> 0 < snd ?p)"
    by (auto simp: walkable_def)
  then show ?case
  proof
    assume o: "fst ?p = 0 \<and> snd ?p = 0"
    then have p0: "?p = (0, 0)" by (simp add: prod_eq_iff)
    with prev_cell_origin[OF pos] have "i = 1 \<and> j = 1" by blast
    then show ?thesis using w o p0 by (simp add: walk_origin)
  next
    assume int: "0 < fst ?p \<and> 0 < snd ?p"
    with pos have "\<not> (i = 0 \<or> j = 0)" by simp
    from "1.IH"[OF this "1.prems"(1) conjunct1[OF int] conjunct2[OF int] wp]
    obtain r where r: "walk d fadd x y (fst ?p) (snd ?p) = (0, 0) # r"
      "\<forall>q \<in> set r. 0 < fst q \<and> 0 < snd q" "hd (r @ [(fst ?p, snd ?p)]) = (1, 1)"
      by blast
    have "walk d fadd x y i j = (0, 0) # (r @ [?p])" using w r by simp
    moreover have "\<forall>q \<in> set (r @ [?p]). 0 < fst q \<and> 0 < snd q" using r int by auto
    moreover have "hd ((r @ [?p]) @ [(i, j)]) = (1, 1)" using r(3) by (cases r) auto
    ultimately show ?thesis by blast
  qed
qed

lemma walk_moves:
  assumes "\<forall>r. fadd (Fin r) PInf = PInf" and "walkable d fadd x y i j"
  shows "successively (\<lambda>s s'. (fst s' - fst s, snd s' - snd s) \<in> {(1, 0), (0, 1), (1, 1 :: int)})
     (map of_cell (walk d fadd x y i j) @ [(int i, int j)])"
  using assms
proof (induction d fadd x y i j rule: walk.induct)
  case (1 d fadd x y i j)
  show ?case
  proof (cases "i = 0 \<or> j = 0")
    case True
    with walkable_origin[OF "1.prems"(2)] have "i = 0" "j = 0" by auto
    then show ?thesis by (simp add: walk_origin)
  next
    case False
    then have pos: "0 < i" "0 < j" by auto
    let ?p = "prev_cell d fadd x y i j"
    let ?M = "\<lambda>s s'. (fst s' - fst s, snd s' - snd s) \<in> {(1, 0), (0, 1), (1, 1 :: int)}"
    have wp: "walkable d fadd x y (fst ?p) (snd ?p)"
      using prev_cell_walkable[where fadd = fadd, OF "1.prems"(1) pos "1.prems"(2)] .
    have oc: "(int (fst ?p), int (snd ?p)) = of_cell ?p"
      by (simp add: of_cell_def)
    have IH: "successively ?M (map of_cell (walk d fadd x y (fst ?p) (snd ?p)) @ [of_cell ?p])"
      using "1.IH"[OF False "1.prems"(1) wp] unfolding oc .
    have last: "?M (of_cell ?p) (int i, int j)"
      using prev_cell_cases[of d fadd x y i j] pos by (auto simp: of_cell_def of_nat_diff)
    have "map of_cell (walk d fadd x y i j) @ [(int i, int j)] =
          (map of_cell (walk d fadd x y (fst ?p) (snd ?p)) @ [of_cell ?p]) @ [(int i, int j)]"
      using walk_interior[OF pos, of d fadd x y] by simp
    then show ?thesis using IH last
      by (simp only: successively_append_iff) simp
  qed
qed

lemma walk_cost:
  assumes "\<forall>r. fadd (Fin r) PInf = PInf" and "\<forall>a b. fadd a b = fadd b a"
    and "walkable d fadd x y i j"
  shows "foldl (\<lambda>acc s. fadd acc (Fin (d (x ! nat (fst s - 1)) (y ! nat (snd s - 1))))) 0
           (filter (\<lambda>s. 0 < fst s \<and> 0 < snd s)
              (map of_cell (walk d fadd x y i j) @ [(int i, int j)])) =
         spec_cell d fadd x y i j"
  using assms
proof (induction d fadd x y i j rule: walk.induct)
  case (1 d fadd x y i j)
  show ?case
  proof (cases "i = 0 \<or> j = 0")
    case True
    with walkable_origin[OF "1.prems"(3)] have "i = 0" "j = 0" by auto
    then show ?thesis by (simp add: walk_origin)
  next
    case False
    then have pos: "0 < i" "0 < j" by auto
    let ?p = "prev_cell d fadd x y i j"
    let ?f = "\<lambda>acc s. fadd acc (Fin (d (x ! nat (fst s - 1)) (y ! nat (snd s - 1))))"
    let ?P = "\<lambda>s :: step. 0 < fst s \<and> 0 < snd s"
    have wp: "walkable d fadd x y (fst ?p) (snd ?p)"
      using prev_cell_walkable[where fadd = fadd, OF "1.prems"(1) pos "1.prems"(3)] .
    have oc: "(int (fst ?p), int (snd ?p)) = of_cell ?p"
      by (simp add: of_cell_def)
    have IH: "foldl ?f 0 (filter ?P (map of_cell (walk d fadd x y (fst ?p) (snd ?p)) @ [of_cell ?p])) =
              spec_cell d fadd x y (fst ?p) (snd ?p)"
      using "1.IH"[OF False "1.prems"(1,2) wp] unfolding oc .
    have split: "map of_cell (walk d fadd x y i j) @ [(int i, int j)] =
          (map of_cell (walk d fadd x y (fst ?p) (snd ?p)) @ [of_cell ?p]) @ [(int i, int j)]"
      using walk_interior[OF pos, of d fadd x y] by simp
    have n: "nat (int i - 1) = i - 1" "nat (int j - 1) = j - 1" by auto
    have "foldl ?f 0 (filter ?P (map of_cell (walk d fadd x y i j) @ [(int i, int j)])) =
          fadd (spec_cell d fadd x y (fst ?p) (snd ?p)) (Fin (d (x ! (i - 1)) (y ! (j - 1))))"
      unfolding split using pos IH n by (simp del: append_assoc)
    also have "\<dots> = spec_cell d fadd x y i j"
      unfolding spec_cell_step[OF pos, of d fadd x y] using "1.prems"(2) by simp
    finally show ?thesis .
  qed
qed

lemma walk_length:
  assumes "\<forall>r. fadd (Fin r) PInf = PInf" and "walkable d fadd x y i j"
  shows "max i j \<le> length (walk d fadd x y i j) \<and> length (walk d fadd x y i j) \<le> i + j"
  using assms
proof (induction d fadd x y i j rule: walk.induct)
  case (1 d fadd x y i j)
  show ?case
  proof (cases "i = 0 \<or> j = 0")
    case True
    with walkable_origin[OF "1.prems"(2)] have "i = 0" "j = 0" by auto
    then show ?thesis by (simp add: walk_origin)
  next
    case False
    then have pos: "0 < i" "0 < j" by auto
    let ?p = "prev_cell d fadd x y i j"
    have wp: "walkable d fadd x y (fst ?p) (snd ?p)"
      using prev_cell_walkable[where fadd = fadd, OF "1.prems"(1) pos "1.prems"(2)] .
    have IH: "max (fst ?p) (snd ?p) \<le> length (walk d fadd x y (fst ?p) (snd ?p)) \<and>
              length (walk d fadd x y (fst ?p) (snd ?p)) \<le> fst ?p + snd ?p"
      using "1.IH"[OF False "1.prems"(1) wp] .
    have c: "i \<le> fst ?p + 1" "j \<le> snd ?p + 1" "fst ?p + snd ?p < i + j"
      using prev_cell_cases[of d fadd x y i j] pos by auto
    have "length (walk d fadd x y i j) = length (walk d fadd x y (fst ?p) (snd ?p)) + 1"
      by (simp add: walk_interior[OF pos])
    then show ?thesis
      using IH c by linarith
  qed
qed

lemma moves_sorted:
  fixes p :: "step list"
  assumes "successively (\<lambda>s s'. (fst s' - fst s, snd s' - snd s) \<in> {(1, 0), (0, 1), (1, 1 :: int)}) p"
  shows "sorted (map fst p) \<and> sorted (map snd p)"
proof -
  have "successively (\<lambda>s s'. fst s \<le> fst s') p"
    by (rule successively_mono[OF assms]) auto
  then have f: "successively (\<le>) (map fst p)" by (simp add: successively_map)
  have "successively (\<lambda>s s'. snd s \<le> snd s') p"
    by (rule successively_mono[OF assms]) auto
  then have s: "successively (\<le>) (map snd p)" by (simp add: successively_map)
  show ?thesis using f s by (simp add: successively_conv_sorted_wrt)
qed

subsection \<open>Empty inputs, the first iteration and a stale \<open>step\<close>\<close>

lemma dtw_first_all_infinite:
  assumes "0 < length x \<or> 0 < length y"
    and "tget t (int (length x) - 1) (int (length y)) = Inr PInf"
    and "tget t (int (length x)) (int (length y) - 1) = Inr PInf"
    and "tget t (int (length x) - 1) (int (length y) - 1) = Inr PInf"
  shows "dtw x y t = Some (Inl UnboundLocalError)"
  unfolding dtw_def Let_def using assms(1)
  by (subst dtw_loop.simps) (simp add: dtw_body_reads[OF assms(2-4)])

lemma tget_dtw_table_wrap_row:
  "j \<le> length y \<Longrightarrow>
   tget (dtw_table_with d fadd [] y) (- 1) (int j) = Inr (spec_cell d fadd [] y 0 j)"
  using dtw_table_row_length[of 0 "[]" d fadd y] dtw_table_cell[of 0 "[]" j y d fadd]
  by (simp add: tget_def np_index_def dtw_table_length)

lemma tget_dtw_table_wrap_col:
  "i \<le> length x \<Longrightarrow>
   tget (dtw_table_with d fadd x []) (int i) (- 1) = Inr (spec_cell d fadd x [] i 0)"
  using dtw_table_row_length[of i x d fadd "[]"] dtw_table_cell[of i x 0 "[]" d fadd]
  by (simp add: tget_def np_index_def dtw_table_length)

lemma dtw_empty_x:
  assumes "2 \<le> length y"
  shows "dtw ([] :: 'a list) y (dtw_table_with (d :: 'a \<Rightarrow> 'b \<Rightarrow> real) fadd [] y) =
         Some (Inl UnboundLocalError)"
proof -
  obtain n where n: "length y = Suc (Suc n)" using assms by (metis add_2_eq_Suc le_Suc_ex)
  have e: "int (length y) - 1 = int (Suc n)" using n by simp
  have a: "tget (dtw_table_with d fadd [] y) (0 - 1) (int (length y)) = Inr PInf"
    using tget_dtw_table_wrap_row[of "length y" y d fadd] n by simp
  have b: "tget (dtw_table_with d fadd [] y) 0 (int (length y) - 1) = Inr PInf"
    unfolding e using tget_dtw_table[of 0 "[]" "Suc n" y d fadd] n by simp
  have c: "tget (dtw_table_with d fadd [] y) (0 - 1) (int (length y) - 1) = Inr PInf"
    unfolding e using tget_dtw_table_wrap_row[of "Suc n" y d fadd] n by simp
  show ?thesis
    by (rule dtw_first_all_infinite) (use n a b c in simp_all)
qed

lemma dtw_empty_y:
  assumes "2 \<le> length x"
  shows "dtw x ([] :: 'b list) (dtw_table_with (d :: 'a \<Rightarrow> 'b \<Rightarrow> real) fadd x []) =
         Some (Inl UnboundLocalError)"
proof -
  obtain n where n: "length x = Suc (Suc n)" using assms by (metis add_2_eq_Suc le_Suc_ex)
  have e: "int (length x) - 1 = int (Suc n)" using n by simp
  have a: "tget (dtw_table_with d fadd x []) (int (length x) - 1) 0 = Inr PInf"
    unfolding e using tget_dtw_table[of "Suc n" x 0 "[]" d fadd] n by simp
  have b: "tget (dtw_table_with d fadd x []) (int (length x)) (0 - 1) = Inr PInf"
    using tget_dtw_table_wrap_col[of "length x" x d fadd] n by simp
  have c: "tget (dtw_table_with d fadd x []) (int (length x) - 1) (0 - 1) = Inr PInf"
    unfolding e using tget_dtw_table_wrap_col[of "Suc n" x d fadd] n by simp
  show ?thesis
    by (rule dtw_first_all_infinite) (use n a b c in simp_all)
qed

lemma one_empty_finite:
  assumes "x = [] \<or> y = []" "i \<le> length x" "j \<le> length y"
  shows "dtw_table_with d fadd x y ! i ! j \<noteq> PInf \<longleftrightarrow> i = 0 \<and> j = 0"
  using assms by (cases i; cases j) (auto simp: dtw_table_cell)

lemma dtw_loop_stale_step:
  assumes body: "dtw_body t i j (Some (i, j)) = Inr (i, j)" and nt: "0 < i \<or> 0 < j"
  shows "dtw_loop t i j path (Some (i, j)) = None"
proof (cases "dtw_loop t i j path (Some (i, j))")
  case None
  then show ?thesis .
next
  case (Some r)
  have "\<not> (t = t \<and> i = i \<and> j = j \<and> Some (i, j) = Some (i, j))"
  proof (rule dtw_loop.raw_induct[where P = "\<lambda>t' i' j' path' step' r.
            \<not> (t' = t \<and> i' = i \<and> j' = j \<and> step' = Some (i, j))", OF _ Some])
    fix f t' i' j' path' step' r'
    assume IH: "\<And>a b c d e y. f a b c d e = Some y \<Longrightarrow>
                  \<not> (a = t \<and> b = i \<and> c = j \<and> e = Some (i, j))"
      and eq: "(if 0 < i' \<or> 0 < j'
                then case dtw_body t' i' j' step' of
                       Inl e \<Rightarrow> Some (Inl e)
                     | Inr s \<Rightarrow> f t' (fst s) (snd s) (s # path') (Some s)
                else Some (Inr path')) = Some r'"
    show "\<not> (t' = t \<and> i' = i \<and> j' = j \<and> step' = Some (i, j))"
    proof
      assume "t' = t \<and> i' = i \<and> j' = j \<and> step' = Some (i, j)"
      with eq body nt have "f t i j ((i, j) # path') (Some (i, j)) = Some r'" by simp
      from IH[OF this] show False by simp
    qed
  qed
  then show ?thesis by simp
qed

lemma dtw_both_empty: "dtw [] [] t = Some (Inr [(0, 0)])"
  by (simp add: dtw_def dtw_loop.simps)

lemma dtw_table_empty_x: "dtw_table_with d fadd [] [v] = [[Fin 0, PInf]]"
  by (simp add: dtw_table_with_def set_left_column_def set_top_row_def zeros_def)

lemma dtw_table_empty_y: "dtw_table_with d fadd [v] [] = [[Fin 0], [PInf]]"
  by (simp add: dtw_table_with_def fill_row_def set_left_column_def set_top_row_def zeros_def)

lemma dtw_empty_single:
  "dtw ([] :: 'a list) [v] (dtw_table_with (d :: 'a \<Rightarrow> 'b \<Rightarrow> real) fadd [] [v]) =
   Some (Inr [(0, 0), (0, 1)])"
  unfolding dtw_table_empty_x
  by (simp add: dtw_def dtw_loop.simps dtw_body_def tget_def np_index_def)

lemma dtw_single_empty:
  "dtw [v] ([] :: 'b list) (dtw_table_with (d :: 'a \<Rightarrow> 'b \<Rightarrow> real) fadd [v] []) =
   Some (Inr [(0, 0), (1, 0)])"
  unfolding dtw_table_empty_y
  by (simp add: dtw_def dtw_loop.simps dtw_body_def tget_def np_index_def)

lemma dtw_result_cases:
  "(x \<noteq> [] \<and> y \<noteq> []) \<or> (x = [] \<and> y = []) \<or>
   (x = [] \<and> (\<exists>v. y = [v])) \<or> ((\<exists>v. x = [v]) \<and> y = []) \<or>
   (x = [] \<and> 2 \<le> length y) \<or> (2 \<le> length x \<and> y = [])"
proof -
  have "\<And>zs :: 'c list. zs = [] \<or> (\<exists>v. zs = [v]) \<or> 2 \<le> length zs"
  proof -
    fix zs :: "'c list"
    show "zs = [] \<or> (\<exists>v. zs = [v]) \<or> 2 \<le> length zs"
      by (cases zs; cases "tl zs") auto
  qed
  then show ?thesis by metis
qed

subsection \<open>Exchanging the two sequences\<close>

lemma min3_swap: "min3 a b c = min3 b a c"
  by (simp add: min3_def min.commute)

lemma spec_cell_swap: "spec_cell (swap_args d) fadd y x j i = spec_cell d fadd x y i j"
proof (induction d fadd x y i j rule: spec_cell.induct)
  case (4 d fadd x y i j)
  then show ?case by (simp add: swap_args_def min3_swap)
qed simp_all

lemma walkable_swap: "walkable (swap_args d) fadd y x j i \<longleftrightarrow> walkable d fadd x y i j"
  unfolding walkable_def spec_cell_swap by (auto simp: min3_swap)

lemma prev_cell_swap:
  assumes "spec_cell d fadd x y (i - 1) j \<noteq> spec_cell d fadd x y i (j - 1) \<or>
           spec_cell d fadd x y (i - 1) (j - 1) < spec_cell d fadd x y (i - 1) j"
  shows "prev_cell (swap_args d) fadd y x j i =
         (snd (prev_cell d fadd x y i j), fst (prev_cell d fadd x y i j))"
  using assms unfolding prev_cell_def Let_def spec_cell_swap
  by (auto simp: min_def)

lemma walk_bounds:
  "q \<in> set (walk d fadd x y i j) \<Longrightarrow> fst q \<le> i \<and> snd q \<le> j"
proof (induction d fadd x y i j rule: walk.induct)
  case (1 d fadd x y i j)
  show ?case
  proof (cases "i = 0 \<or> j = 0")
    case True
    with "1.prems" show ?thesis by (simp add: walk.simps)
  next
    case False
    then have pos: "0 < i" "0 < j" by auto
    let ?p = "prev_cell d fadd x y i j"
    from "1.prems" have "q \<in> set (walk d fadd x y (fst ?p) (snd ?p)) \<or> q = ?p"
      by (auto simp: walk_interior[OF pos])
    then show ?thesis
    proof
      assume "q \<in> set (walk d fadd x y (fst ?p) (snd ?p))"
      from "1.IH"[OF False this] prev_cell_le[of d fadd x y i j] show ?thesis by linarith
    next
      assume "q = ?p"
      then show ?thesis using prev_cell_le[of d fadd x y i j] by simp
    qed
  qed
qed

lemma walk_swap:
  assumes "\<forall>r. fadd (Fin r) PInf = PInf" and "walkable d fadd x y i j"
    and "\<forall>q \<in> set (walk d fadd x y i j @ [(i, j)]). 0 < fst q \<and> 0 < snd q \<longrightarrow>
           spec_cell d fadd x y (fst q - 1) (snd q) \<noteq> spec_cell d fadd x y (fst q) (snd q - 1) \<or>
           spec_cell d fadd x y (fst q - 1) (snd q - 1) < spec_cell d fadd x y (fst q - 1) (snd q)"
  shows "walk (swap_args d) fadd y x j i = map (\<lambda>q. (snd q, fst q)) (walk d fadd x y i j)"
  using assms
proof (induction d fadd x y i j rule: walk.induct)
  case (1 d fadd x y i j)
  show ?case
  proof (cases "i = 0 \<or> j = 0")
    case True
    with walkable_origin[OF "1.prems"(2)] have "i = 0" "j = 0" by auto
    then show ?thesis by (simp add: walk_origin)
  next
    case False
    then have pos: "0 < i" "0 < j" by auto
    let ?p = "prev_cell d fadd x y i j"
    have w: "walk d fadd x y i j = walk d fadd x y (fst ?p) (snd ?p) @ [?p]"
      by (rule walk_interior[OF pos])
    have wp: "walkable d fadd x y (fst ?p) (snd ?p)"
      using prev_cell_walkable[where fadd = fadd, OF "1.prems"(1) pos "1.prems"(2)] .
    have "spec_cell d fadd x y (i - 1) j \<noteq> spec_cell d fadd x y i (j - 1) \<or>
           spec_cell d fadd x y (i - 1) (j - 1) < spec_cell d fadd x y (i - 1) j"
      using "1.prems"(3) pos by simp
    then have p': "prev_cell (swap_args d) fadd y x j i = (snd ?p, fst ?p)"
      by (rule prev_cell_swap)
    have sub: "\<forall>q \<in> set (walk d fadd x y (fst ?p) (snd ?p) @ [(fst ?p, snd ?p)]).
           0 < fst q \<and> 0 < snd q \<longrightarrow>
           spec_cell d fadd x y (fst q - 1) (snd q) \<noteq> spec_cell d fadd x y (fst q) (snd q - 1) \<or>
           spec_cell d fadd x y (fst q - 1) (snd q - 1) < spec_cell d fadd x y (fst q - 1) (snd q)"
      using "1.prems"(3) unfolding w by simp
    have IH: "walk (swap_args d) fadd y x (snd ?p) (fst ?p) =
              map (\<lambda>q. (snd q, fst q)) (walk d fadd x y (fst ?p) (snd ?p))"
      using "1.IH"[OF False "1.prems"(1) wp sub] .
    have "walk (swap_args d) fadd y x j i =
          walk (swap_args d) fadd y x (snd ?p) (fst ?p) @ [(snd ?p, fst ?p)]"
      using walk_interior[OF pos(2) pos(1), of "swap_args d" fadd y x] p' by simp
    then show ?thesis unfolding IH w by simp
  qed
qed

lemma dtw_table_swap:
  "i \<le> length x \<Longrightarrow> j \<le> length y \<Longrightarrow>
   dtw_table_with (swap_args d) fadd y x ! j ! i = dtw_table_with d fadd x y ! i ! j"
  by (simp add: dtw_table_cell spec_cell_swap)

lemma dtw_swap_nonempty:
  assumes ab: "\<forall>r. fadd (Fin r) PInf = PInf" and ne: "x \<noteq> []" "y \<noteq> []"
    and res: "dtw x y (dtw_table_with d fadd x y) = Some (Inr p)"
    and notie: "\<forall>(i, j) \<in> set p. 0 < i \<and> 0 < j \<longrightarrow>
        dtw_table_with d fadd x y ! nat (i - 1) ! nat j \<noteq>
        dtw_table_with d fadd x y ! nat i ! nat (j - 1) \<or>
        dtw_table_with d fadd x y ! nat (i - 1) ! nat (j - 1) <
        dtw_table_with d fadd x y ! nat (i - 1) ! nat j"
  shows "dtw y x (dtw_table_with (swap_args d) fadd y x) = Some (Inr (map swap_step p))"
proof -
  let ?nx = "length x" and ?ny = "length y"
  have pos: "0 < ?nx" "0 < ?ny" using ne by auto
  have w: "walkable d fadd x y ?nx ?ny"
    using res dtw_no_candidate[OF ne, of d fadd] by auto
  have p: "p = map of_cell (walk d fadd x y ?nx ?ny) @ [(int ?nx, int ?ny)]"
    using res dtw_nonempty[where fadd = fadd, OF ab ne w] by simp
  have cond: "\<forall>q \<in> set (walk d fadd x y ?nx ?ny @ [(?nx, ?ny)]). 0 < fst q \<and> 0 < snd q \<longrightarrow>
           spec_cell d fadd x y (fst q - 1) (snd q) \<noteq> spec_cell d fadd x y (fst q) (snd q - 1) \<or>
           spec_cell d fadd x y (fst q - 1) (snd q - 1) < spec_cell d fadd x y (fst q - 1) (snd q)"
  proof (intro ballI impI)
    fix q assume q: "q \<in> set (walk d fadd x y ?nx ?ny @ [(?nx, ?ny)])"
      and qpos: "0 < fst q \<and> 0 < snd q"
    have le: "fst q \<le> ?nx" "snd q \<le> ?ny"
      using q walk_bounds[of q d fadd x y ?nx ?ny] by auto
    have "of_cell q \<in> set p" using q unfolding p by (auto simp: of_cell_def)
    with notie qpos have
      "dtw_table_with d fadd x y ! nat (int (fst q) - 1) ! nat (int (snd q)) \<noteq>
       dtw_table_with d fadd x y ! nat (int (fst q)) ! nat (int (snd q) - 1) \<or>
       dtw_table_with d fadd x y ! nat (int (fst q) - 1) ! nat (int (snd q) - 1) <
       dtw_table_with d fadd x y ! nat (int (fst q) - 1) ! nat (int (snd q))"
      by (auto simp: of_cell_def)
    moreover have "nat (int (fst q) - 1) = fst q - 1" "nat (int (snd q) - 1) = snd q - 1" by auto
    ultimately show "spec_cell d fadd x y (fst q - 1) (snd q) \<noteq> spec_cell d fadd x y (fst q) (snd q - 1) \<or>
           spec_cell d fadd x y (fst q - 1) (snd q - 1) < spec_cell d fadd x y (fst q - 1) (snd q)"
      using le by (simp add: dtw_table_cell)
  qed
  have "walk (swap_args d) fadd y x ?ny ?nx = map (\<lambda>q. (snd q, fst q)) (walk d fadd x y ?nx ?ny)"
    using walk_swap[where fadd = fadd, OF ab w cond] .
  moreover have "walkable (swap_args d) fadd y x ?ny ?nx"
    using w by (simp add: walkable_swap)
  ultimately show ?thesis
    using dtw_nonempty[where fadd = fadd and d = "swap_args d", OF ab ne(2) ne(1)] p
    by (simp add: swap_step_def of_cell_def)
qed

lemma dtw_swap_error_nonempty:
  assumes ab: "\<forall>r. fadd (Fin r) PInf = PInf" and ne: "x \<noteq> []" "y \<noteq> []"
    and res: "dtw x y (dtw_table_with d fadd x y) = Some (Inl e)"
  shows "dtw y x (dtw_table_with (swap_args d) fadd y x) = Some (Inl e)"
proof -
  have nw: "\<not> walkable d fadd x y (length x) (length y)"
    using res dtw_nonempty[where fadd = fadd, OF ab ne, of d] by auto
  then have e: "e = UnboundLocalError"
    using res dtw_no_candidate[OF ne, of d fadd] by simp
  have "\<not> walkable (swap_args d) fadd y x (length y) (length x)"
    using nw by (simp add: walkable_swap)
  then show ?thesis
    unfolding e using dtw_no_candidate[OF ne(2) ne(1)] by blast
qed

lemma dtw_table_transpose:
  "dtw_table_with (swap_args d) fadd y x = transpose (dtw_table_with d fadd x y)"
proof -
  let ?T = "dtw_table_with d fadd x y" and ?T' = "dtw_table_with (swap_args d) fadd y x"
  have "transpose ?T = map (\<lambda>j. map (\<lambda>i. ?T ! i ! j) [0..<length ?T]) [0..<length y + 1]"
  proof (rule transpose_rectangle)
    assume "?T = []"
    then show "length y + 1 = 0" using dtw_table_length[of d fadd x y] by simp
  next
    fix i assume "i < length ?T"
    then show "length (?T ! i) = length y + 1"
      by (simp add: dtw_table_length dtw_table_row_length)
  qed
  moreover have "?T' = map (\<lambda>j. map (\<lambda>i. ?T ! i ! j) [0..<length ?T]) [0..<length y + 1]"
  proof (rule nth_equalityI)
    show "length ?T' = length (map (\<lambda>j. map (\<lambda>i. ?T ! i ! j) [0..<length ?T]) [0..<length y + 1])"
      by (simp add: dtw_table_length)
  next
    fix j assume "j < length ?T'"
    then have j: "j \<le> length y" by (simp add: dtw_table_length)
    have "?T' ! j = map (\<lambda>i. ?T ! i ! j) [0..<length ?T]"
    proof (rule nth_equalityI)
      show "length (?T' ! j) = length (map (\<lambda>i. ?T ! i ! j) [0..<length ?T])"
        using j by (simp add: dtw_table_length dtw_table_row_length)
    next
      fix i assume "i < length (?T' ! j)"
      then have i: "i \<le> length x" using j by (simp add: dtw_table_row_length)
      have "?T' ! j ! i = ?T ! i ! j" by (rule dtw_table_swap[OF i j])
      then show "?T' ! j ! i = map (\<lambda>i. ?T ! i ! j) [0..<length ?T] ! i"
        using i by (simp add: dtw_table_length del: upt_Suc)
    qed
    then show "?T' ! j = map (\<lambda>j. map (\<lambda>i. ?T ! i ! j) [0..<length ?T]) [0..<length y + 1] ! j"
      using j by (simp del: upt_Suc)
  qed
  ultimately show ?thesis by simp
qed

subsection \<open>The addition of the concrete runs\<close>

lemma float_add_absorb: "\<forall>r. float_add (Fin r) PInf = PInf"
  by simp

lemma float_add_commute: "\<forall>a b. float_add a b = float_add b a"
proof (intro allI)
  fix a b show "float_add a b = float_add b a"
    by (cases a; cases b) (simp_all add: add.commute)
qed

lemma float_add_increasing: "\<forall>r v. 0 \<le> r \<longrightarrow> v \<le> float_add (Fin r) v"
proof (intro allI impI)
  fix r :: real and v :: cost
  assume "0 \<le> r" then show "v \<le> float_add (Fin r) v"
    by (cases v) simp_all
qed

lemma float_add_small:
  "a + b \<le> 1000000 \<Longrightarrow> float_add (Fin a) (Fin b) = Fin (a + b)"
proof -
  assume h: "a + b \<le> 1000000"
  have "(2 :: real) ^ 970 * 2 \<le> 2 ^ 970 * 2 ^ 54" by simp
  then have "(1000000 :: real) < 2 ^ 1024 - 2 ^ 970"
    by (simp add: power_add [of 2 970 54, symmetric])
  with h show ?thesis by simp
qed

subsection \<open>Concrete tables\<close>

lemmas table_defs =
  dtw_table_with_def fill_row_def fill_cell_def set_cell_def set_left_column_def
  set_top_row_def zeros_def min3_def euclidean_def Let_def

lemmas run_defs = dtw_def dtw_loop.simps dtw_body_def tget_def np_index_def

lemma scenario1_table:
  "dtw_table [0, 4, 4, 0, -4, -4, 0] [1, 3, 4, 3, 1, -1, -2, -1, 0] =
   [[Fin 0, PInf, PInf, PInf, PInf, PInf, PInf, PInf, PInf, PInf],
    [PInf, Fin 1, Fin 4, Fin 8, Fin 11, Fin 12, Fin 13, Fin 15, Fin 16, Fin 16],
    [PInf, Fin 4, Fin 2, Fin 2, Fin 3, Fin 6, Fin 11, Fin 17, Fin 20, Fin 20],
    [PInf, Fin 7, Fin 3, Fin 2, Fin 3, Fin 6, Fin 11, Fin 17, Fin 22, Fin 24],
    [PInf, Fin 8, Fin 6, Fin 6, Fin 5, Fin 4, Fin 5, Fin 7, Fin 8, Fin 8],
    [PInf, Fin 13, Fin 13, Fin 14, Fin 12, Fin 9, Fin 7, Fin 7, Fin 10, Fin 12],
    [PInf, Fin 18, Fin 20, Fin 21, Fin 19, Fin 14, Fin 10, Fin 9, Fin 10, Fin 14],
    [PInf, Fin 19, Fin 21, Fin 24, Fin 22, Fin 15, Fin 11, Fin 11, Fin 10, Fin 10]]"
  by (simp add: dtw_table_def table_defs float_add_small del: float_add.simps(1))

lemma small_table:
  "dtw_table_with euclidean float_add [0, 4] [1, 3] =
   [[Fin 0, PInf, PInf], [PInf, Fin 1, Fin 4], [PInf, Fin 4, Fin 2]]"
  by (simp add: table_defs float_add_small del: float_add.simps(1))

lemma small_run:
  "dtw [0, 4 :: real] [1, 3 :: real] (dtw_table_with euclidean float_add [0, 4] [1, 3]) =
   Some (Inr [(0, 0), (1, 1), (2, 2)])"
  unfolding small_table by (simp add: run_defs)

lemma small_candidates:
  "min3 (dtw_table_with euclidean float_add [0, 4] [1, 3] ! (length [0, 4 :: real] - 1) !
           length [1, 3 :: real])
        (dtw_table_with euclidean float_add [0, 4] [1, 3] ! length [0, 4 :: real] !
           (length [1, 3 :: real] - 1))
        (dtw_table_with euclidean float_add [0, 4] [1, 3] ! (length [0, 4 :: real] - 1) !
           (length [1, 3 :: real] - 1)) < PInf"
  unfolding small_table by (simp add: min3_def)

section \<open>The claims\<close>

text \<open>
  C1. For all sequences \<open>X\<close>, \<open>Y\<close> and every distance function, \<open>dtw_table\<close> returns a table
  of \<open>Nx + 1\<close> rows of \<open>Ny + 1\<close> cells with cell \<open>(0,0) = 0\<close>, cell \<open>(i,0) = +inf\<close> for
  \<open>i\<close> in \<open>1..Nx\<close>, cell \<open>(0,j) = +inf\<close> for \<open>j\<close> in \<open>1..Ny\<close>, and for \<open>i\<close> in \<open>1..Nx\<close> and
  \<open>j\<close> in \<open>1..Ny\<close> cell \<open>(i,j)\<close> is the distance of \<open>X[i-1]\<close> and \<open>Y[j-1]\<close> plus the minimum of
  the cells \<open>(i-1,j)\<close>, \<open>(i,j-1)\<close> and \<open>(i-1,j-1)\<close>. This holds whatever the float addition
  does.
\<close>

theorem dtw_table_recurrence:
  "length (dtw_table_with distance fadd x y) = length x + 1 \<and>
   (\<forall>row \<in> set (dtw_table_with distance fadd x y). length row = length y + 1) \<and>
   dtw_table_with distance fadd x y ! 0 ! 0 = 0 \<and>
   (\<forall>i \<in> {1..length x}. dtw_table_with distance fadd x y ! i ! 0 = PInf) \<and>
   (\<forall>j \<in> {1..length y}. dtw_table_with distance fadd x y ! 0 ! j = PInf) \<and>
   (\<forall>i \<in> {1..length x}. \<forall>j \<in> {1..length y}.
      dtw_table_with distance fadd x y ! i ! j =
        fadd (Fin (distance (x ! (i - 1)) (y ! (j - 1))))
          (min3 (dtw_table_with distance fadd x y ! (i - 1) ! j)
                (dtw_table_with distance fadd x y ! i ! (j - 1))
                (dtw_table_with distance fadd x y ! (i - 1) ! (j - 1))))"
proof (intro conjI ballI)
  show "length (dtw_table_with distance fadd x y) = length x + 1"
    by (rule dtw_table_length)
next
  fix row assume "row \<in> set (dtw_table_with distance fadd x y)"
  then obtain r where "r < length (dtw_table_with distance fadd x y)"
    and "row = dtw_table_with distance fadd x y ! r"
    by (auto simp: in_set_conv_nth)
  then show "length row = length y + 1"
    by (simp add: dtw_table_length dtw_table_row_length)
next
  show "dtw_table_with distance fadd x y ! 0 ! 0 = 0"
    by (simp add: dtw_table_cell)
next
  fix i assume "i \<in> {1..length x}"
  then show "dtw_table_with distance fadd x y ! i ! 0 = PInf"
    by (cases i) (simp_all add: dtw_table_cell)
next
  fix j assume "j \<in> {1..length y}"
  then show "dtw_table_with distance fadd x y ! 0 ! j = PInf"
    by (cases j) (simp_all add: dtw_table_cell)
next
  fix i j assume "i \<in> {1..length x}" and "j \<in> {1..length y}"
  then show "dtw_table_with distance fadd x y ! i ! j =
        fadd (Fin (distance (x ! (i - 1)) (y ! (j - 1))))
          (min3 (dtw_table_with distance fadd x y ! (i - 1) ! j)
                (dtw_table_with distance fadd x y ! i ! (j - 1))
                (dtw_table_with distance fadd x y ! (i - 1) ! (j - 1)))"
    by (cases i; cases j) (simp_all add: dtw_table_cell)
qed

theorem dtw_table_recurrence_witness:
  "(2::nat) \<in> {1..length [0, 4 :: real]} \<and> (1::nat) \<in> {1..length [1, 3 :: real]} \<and>
   dtw_table_with euclidean float_add [0, 4] [1, 3] ! 2 ! 1 =
     float_add (Fin (euclidean 4 1))
       (min3 (dtw_table_with euclidean float_add [0, 4] [1, 3] ! 1 ! 1)
             (dtw_table_with euclidean float_add [0, 4] [1, 3] ! 2 ! 0)
             (dtw_table_with euclidean float_add [0, 4] [1, 3] ! 1 ! 0)) \<and>
   dtw_table_with euclidean float_add [0, 4] [1, 3] ! 2 ! 0 = PInf \<and>
   dtw_table_with euclidean float_add [0, 4] [1, 3] ! 0 ! 1 = PInf"
  using dtw_table_recurrence [of euclidean float_add "[0, 4]" "[1, 3]"] by simp

text \<open>
  C2. For \<open>X = [0,4,4,0,-4,-4,0]\<close> and \<open>Y = [1,3,4,3,1,-1,-2,-1,0]\<close> with the distance of
  scalars, \<open>table[7][9]\<close> is 10 and the path is
  \<open>[(0,0),(1,1),(2,2),(2,3),(3,3),(3,4),(4,5),(4,6),(5,7),(6,7),(7,8),(7,9)]\<close>. All sums are
  small integers, on which float64 addition is exact.
\<close>

theorem scenario1:
  "dtw_table [0, 4, 4, 0, -4, -4, 0] [1, 3, 4, 3, 1, -1, -2, -1, 0] ! 7 ! 9 = Fin 10 \<and>
   dtw [0, 4, 4, 0, -4, -4, 0 :: real] [1, 3, 4, 3, 1, -1, -2, -1, 0 :: real]
       (dtw_table [0, 4, 4, 0, -4, -4, 0] [1, 3, 4, 3, 1, -1, -2, -1, 0]) =
   Some (Inr [(0, 0), (1, 1), (2, 2), (2, 3), (3, 3), (3, 4), (4, 5), (4, 6), (5, 7), (6, 7),
              (7, 8), (7, 9)])"
  unfolding scenario1_table
  by (simp add: run_defs)

text \<open>
  C3, as amended. For non-empty \<open>X\<close> and \<open>Y\<close> such that one of the cells \<open>(Nx-1,Ny)\<close>,
  \<open>(Nx,Ny-1)\<close>, \<open>(Nx-1,Ny-1)\<close> is finite, the backtracker returns a path, and adding the
  distances of \<open>X[i-1]\<close> and \<open>Y[j-1]\<close> over its elements \<open>(i,j)\<close> with \<open>i > 0\<close> and \<open>j > 0\<close>, in
  the order of the path and starting from 0 as Python's \<open>sum\<close> does, gives exactly
  \<open>table[Nx][Ny]\<close>. Of the float addition this uses that it is commutative and that a
  finite value plus \<open>inf\<close> is \<open>inf\<close>; it does not use associativity, which floats lack.
\<close>

theorem dtw_cost_consistent:
  assumes "\<forall>r. fadd (Fin r) PInf = PInf" and "\<forall>a b. fadd a b = fadd b a"
    and "x \<noteq> []" and "y \<noteq> []"
    and "min3 (dtw_table_with distance fadd x y ! (length x - 1) ! length y)
              (dtw_table_with distance fadd x y ! length x ! (length y - 1))
              (dtw_table_with distance fadd x y ! (length x - 1) ! (length y - 1)) < PInf"
  shows "\<exists>p. dtw x y (dtw_table_with distance fadd x y) = Some (Inr p) \<and>
           foldl (\<lambda>acc s. fadd acc (Fin (distance (x ! nat (fst s - 1)) (y ! nat (snd s - 1))))) 0
             (filter (\<lambda>s. 0 < fst s \<and> 0 < snd s) p) =
           dtw_table_with distance fadd x y ! length x ! length y"
proof -
  have w: "walkable distance fadd x y (length x) (length y)"
    using assms(3-5) by (simp add: walkable_table)
  show ?thesis
    using dtw_nonempty[where fadd = fadd, OF assms(1,3,4) w]
      walk_cost[where fadd = fadd, OF assms(1,2) w]
    by (simp add: dtw_table_cell)
qed

theorem dtw_cost_consistent_witness:
  "(\<forall>r. float_add (Fin r) PInf = PInf) \<and> (\<forall>a b. float_add a b = float_add b a) \<and>
   [0, 4 :: real] \<noteq> [] \<and> [1, 3 :: real] \<noteq> [] \<and>
   (\<exists>p. dtw [0, 4 :: real] [1, 3 :: real] (dtw_table_with euclidean float_add [0, 4] [1, 3]) =
          Some (Inr p) \<and>
        foldl (\<lambda>acc s. float_add acc
                 (Fin (euclidean ([0, 4] ! nat (fst s - 1)) ([1, 3] ! nat (snd s - 1))))) 0
          (filter (\<lambda>s. 0 < fst s \<and> 0 < snd s) p) =
        dtw_table_with euclidean float_add [0, 4] [1, 3] ! length [0, 4 :: real] !
          length [1, 3 :: real])"
  using dtw_cost_consistent [of float_add "[0, 4 :: real]" "[1, 3 :: real]" euclidean,
      OF float_add_absorb float_add_commute _ _ small_candidates]
    float_add_absorb float_add_commute
  by simp

text \<open>
  C3 as stated, for every non-empty \<open>X\<close> and \<open>Y\<close>, fails when the additions overflow: for
  \<open>X = [2^1023, 2^1023, 2^1023]\<close> and \<open>Y = [0]\<close> the cells \<open>(2,1)\<close> and \<open>(3,1)\<close> are \<open>inf\<close>, the
  three candidates at \<open>(3,1)\<close> are all infinite, and the backtracker raises
  \<open>UnboundLocalError\<close>: there is no path to sum over.
\<close>

theorem dtw_cost_consistent_counterexample:
  "dtw_table [2 ^ 1023, 2 ^ 1023, 2 ^ 1023] [0] =
     [[Fin 0, PInf], [PInf, Fin (2 ^ 1023)], [PInf, PInf], [PInf, PInf]] \<and>
   dtw [2 ^ 1023, 2 ^ 1023, 2 ^ 1023 :: real] [0 :: real]
       (dtw_table [2 ^ 1023, 2 ^ 1023, 2 ^ 1023] [0]) = Some (Inl UnboundLocalError)"
proof -
  have t: "dtw_table [2 ^ 1023, 2 ^ 1023, 2 ^ 1023] [0] =
     [[Fin 0, PInf], [PInf, Fin (2 ^ 1023)], [PInf, PInf], [PInf, PInf]]"
    by (simp add: dtw_table_def table_defs)
  show ?thesis unfolding t by (simp add: run_defs)
qed

text \<open>
  C4, as amended. For non-empty \<open>X\<close> and \<open>Y\<close> such that one of the cells \<open>(Nx-1,Ny)\<close>,
  \<open>(Nx,Ny-1)\<close>, \<open>(Nx-1,Ny-1)\<close> is finite, the backtracker returns a path that starts at
  \<open>(0,0)\<close>, ends at \<open>(Nx,Ny)\<close>, and in which each element differs from the one before it by
  \<open>(+1,0)\<close>, \<open>(0,+1)\<close> or \<open>(+1,+1)\<close>; both coordinates are non-decreasing along the path.
\<close>

theorem dtw_path_valid:
  assumes "\<forall>r. fadd (Fin r) PInf = PInf" and "x \<noteq> []" and "y \<noteq> []"
    and "min3 (dtw_table_with distance fadd x y ! (length x - 1) ! length y)
              (dtw_table_with distance fadd x y ! length x ! (length y - 1))
              (dtw_table_with distance fadd x y ! (length x - 1) ! (length y - 1)) < PInf"
  shows "\<exists>p. dtw x y (dtw_table_with distance fadd x y) = Some (Inr p) \<and> p \<noteq> [] \<and>
           hd p = (0, 0) \<and> last p = (int (length x), int (length y)) \<and>
           successively (\<lambda>s s'. (fst s' - fst s, snd s' - snd s) \<in> {(1, 0), (0, 1), (1, 1)}) p \<and>
           sorted (map fst p) \<and> sorted (map snd p)"
proof -
  let ?p = "map of_cell (walk distance fadd x y (length x) (length y)) @
            [(int (length x), int (length y))]"
  have pos: "0 < length x" "0 < length y" using assms by auto
  have w: "walkable distance fadd x y (length x) (length y)"
    using assms(2-4) by (simp add: walkable_table)
  from walk_shape[where fadd = fadd, OF assms(1) pos w] obtain r
    where r: "walk distance fadd x y (length x) (length y) = (0, 0) # r" by blast
  have m: "successively (\<lambda>s s'. (fst s' - fst s, snd s' - snd s) \<in> {(1, 0), (0, 1), (1, 1 :: int)}) ?p"
    using walk_moves[where fadd = fadd, OF assms(1) w] .
  have "dtw x y (dtw_table_with distance fadd x y) = Some (Inr ?p)"
    by (rule dtw_nonempty[where fadd = fadd, OF assms(1-3) w])
  moreover have "hd ?p = (0, 0)" by (simp add: r of_cell_def)
  moreover have "last ?p = (int (length x), int (length y))" by simp
  moreover have "?p \<noteq> []" by simp
  ultimately show ?thesis using m moves_sorted[OF m] by blast
qed

theorem dtw_path_valid_witness:
  "(\<forall>r. float_add (Fin r) PInf = PInf) \<and> [0, 4 :: real] \<noteq> [] \<and> [1, 3 :: real] \<noteq> [] \<and>
   (\<exists>p. dtw [0, 4 :: real] [1, 3 :: real] (dtw_table_with euclidean float_add [0, 4] [1, 3]) =
          Some (Inr p) \<and>
        hd p = (0, 0) \<and> last p = (2, 2))"
  using dtw_path_valid [of float_add "[0, 4 :: real]" "[1, 3 :: real]" euclidean,
      OF float_add_absorb _ _ small_candidates]
    float_add_absorb
  by auto

text \<open>
  C4 as stated, for every non-empty \<open>X\<close> and \<open>Y\<close>, fails when the additions overflow: for
  \<open>X = [0]\<close> and \<open>Y = [2^1023, 2^1023, 2^1023]\<close> the cells \<open>(1,2)\<close> and \<open>(1,3)\<close> are \<open>inf\<close>, the
  three candidates at \<open>(1,3)\<close> are all infinite, and the backtracker raises
  \<open>UnboundLocalError\<close> instead of returning a path.
\<close>

theorem dtw_path_valid_counterexample:
  "dtw_table [0] [2 ^ 1023, 2 ^ 1023, 2 ^ 1023] =
     [[Fin 0, PInf, PInf, PInf], [PInf, Fin (2 ^ 1023), PInf, PInf]] \<and>
   dtw [0 :: real] [2 ^ 1023, 2 ^ 1023, 2 ^ 1023 :: real]
       (dtw_table [0] [2 ^ 1023, 2 ^ 1023, 2 ^ 1023]) = Some (Inl UnboundLocalError)"
proof -
  have t: "dtw_table [0] [2 ^ 1023, 2 ^ 1023, 2 ^ 1023] =
     [[Fin 0, PInf, PInf, PInf], [PInf, Fin (2 ^ 1023), PInf, PInf]]"
    by (simp add: dtw_table_def table_defs)
  show ?thesis unfolding t by (simp add: run_defs)
qed

text \<open>
  C5. At a non-terminal state \<open>(i, j)\<close> the backtracker looks at \<open>(i-1,j)\<close>, \<open>(i,j-1)\<close> and
  \<open>(i-1,j-1)\<close> in this order and keeps a candidate only when its value is strictly below
  the best so far. So when the smallest of the three values is finite, the selected step
  is the first candidate in this order whose value is that minimum; the loop prepends it
  to the path and continues from it.
\<close>

theorem dtw_body_tie_break:
  assumes "0 < i \<or> 0 < j"
    and "tget t (i - 1) j = Inr a" and "tget t i (j - 1) = Inr b"
    and "tget t (i - 1) (j - 1) = Inr c"
    and "min3 a b c < PInf"
    and "s = (if a = min3 a b c then (i - 1, j)
              else if b = min3 a b c then (i, j - 1)
              else (i - 1, j - 1))"
  shows "dtw_body t i j step = Inr s \<and>
         dtw_loop t i j path step = dtw_loop t (fst s) (snd s) (s # path) (Some s)"
proof -
  have "dtw_body t i j step = Inr s"
    unfolding dtw_body_reads[OF assms(2-4)] assms(6) using assms(5)
    by (cases a; cases b; cases c) (auto simp: min3_def min_def)
  then show ?thesis
    using assms(1) by (subst dtw_loop.simps) simp
qed

theorem dtw_body_tie_break_witness:
  "dtw_body (dtw_table [0, 0] [0, 0]) 2 2 None = Inr (1, 2) \<and>
   dtw_loop (dtw_table [0, 0] [0, 0]) 2 2 [(2, 2)] None =
   dtw_loop (dtw_table [0, 0] [0, 0]) 1 2 [(1, 2), (2, 2)] (Some (1, 2))"
proof -
  have t: "dtw_table [0, 0] [0, 0] = [[Fin 0, PInf, PInf], [PInf, Fin 0, Fin 0], [PInf, Fin 0, Fin 0]]"
    by (simp add: dtw_table_def table_defs float_add_small del: float_add.simps(1))
  show ?thesis
    using dtw_body_tie_break [of 2 2 "dtw_table [0, 0] [0, 0]" "Fin 0" "Fin 0" "Fin 0" "(1, 2)" None "[(2, 2)]"]
    by (simp add: t tget_def np_index_def min3_def)
qed

text \<open>
  C6, as amended. When the first state \<open>(Nx, Ny)\<close> of the backtracker is non-terminal and
  the three values it reads there (through numpy's indexing, where \<open>-1\<close> is the last row
  or column) are all infinite, the computation fails with \<open>UnboundLocalError\<close>, because
  \<open>step\<close> was never assigned; the code has no error of its own for this. On the table of
  \<open>dtw_table\<close> this is the case when one sequence is empty and the other has at least two
  elements, as for \<open>X = []\<close> and \<open>Y = [1,2,3]\<close>. Building the table succeeds, and when a
  sequence is empty \<open>(0,0)\<close> is its only finite cell.
\<close>

theorem dtw_all_infinite_fails:
  "((0 < length x \<or> 0 < length y) \<and>
    tget t (int (length x) - 1) (int (length y)) = Inr PInf \<and>
    tget t (int (length x)) (int (length y) - 1) = Inr PInf \<and>
    tget t (int (length x) - 1) (int (length y) - 1) = Inr PInf \<longrightarrow>
    dtw x y t = Some (Inl UnboundLocalError)) \<and>
   ((x = [] \<and> 2 \<le> length y) \<or> (y = [] \<and> 2 \<le> length x) \<longrightarrow>
    dtw x y (dtw_table_with distance fadd x y) = Some (Inl UnboundLocalError)) \<and>
   (x = [] \<or> y = [] \<longrightarrow>
    (\<forall>i \<le> length x. \<forall>j \<le> length y.
       (dtw_table_with distance fadd x y ! i ! j \<noteq> PInf) = (i = 0 \<and> j = 0)))"
proof (intro conjI impI)
  assume "(0 < length x \<or> 0 < length y) \<and>
    tget t (int (length x) - 1) (int (length y)) = Inr PInf \<and>
    tget t (int (length x)) (int (length y) - 1) = Inr PInf \<and>
    tget t (int (length x) - 1) (int (length y) - 1) = Inr PInf"
  then show "dtw x y t = Some (Inl UnboundLocalError)"
    using dtw_first_all_infinite by blast
next
  assume "(x = [] \<and> 2 \<le> length y) \<or> (y = [] \<and> 2 \<le> length x)"
  then show "dtw x y (dtw_table_with distance fadd x y) = Some (Inl UnboundLocalError)"
    using dtw_empty_x dtw_empty_y by blast
next
  assume "x = [] \<or> y = []"
  then show "\<forall>i \<le> length x. \<forall>j \<le> length y.
       (dtw_table_with distance fadd x y ! i ! j \<noteq> PInf) = (i = 0 \<and> j = 0)"
    using one_empty_finite by blast
qed

theorem dtw_all_infinite_fails_witness:
  "tget (dtw_table_with euclidean float_add [] [1, 2, 3]) (int (length ([] :: real list)) - 1)
        (int (length [1, 2, 3 :: real])) = Inr PInf \<and>
   tget (dtw_table_with euclidean float_add [] [1, 2, 3]) (int (length ([] :: real list)))
        (int (length [1, 2, 3 :: real]) - 1) = Inr PInf \<and>
   tget (dtw_table_with euclidean float_add [] [1, 2, 3]) (int (length ([] :: real list)) - 1)
        (int (length [1, 2, 3 :: real]) - 1) = Inr PInf \<and>
   dtw ([] :: real list) [1, 2, 3 :: real] (dtw_table_with euclidean float_add [] [1, 2, 3]) =
     Some (Inl UnboundLocalError) \<and>
   dtw_table_with euclidean float_add [] [1, 2, 3] ! 0 ! 0 \<noteq> PInf \<and>
   dtw_table_with euclidean float_add [] [1, 2, 3] ! 0 ! 3 = PInf"
proof -
  have tab: "dtw_table_with euclidean float_add [] [1, 2, 3] = [[Fin 0, PInf, PInf, PInf]]"
    by (simp add: dtw_table_with_def set_left_column_def set_top_row_def zeros_def)
  have reads:
    "tget (dtw_table_with euclidean float_add [] [1, 2, 3]) (int (length ([] :: real list)) - 1)
          (int (length [1, 2, 3 :: real])) = Inr PInf"
    "tget (dtw_table_with euclidean float_add [] [1, 2, 3]) (int (length ([] :: real list)))
          (int (length [1, 2, 3 :: real]) - 1) = Inr PInf"
    "tget (dtw_table_with euclidean float_add [] [1, 2, 3]) (int (length ([] :: real list)) - 1)
          (int (length [1, 2, 3 :: real]) - 1) = Inr PInf"
    unfolding tab by (simp_all add: tget_def np_index_def)
  note t = dtw_all_infinite_fails [of "[]" "[1, 2, 3 :: real]"
      "dtw_table_with euclidean float_add [] [1, 2, 3]" euclidean float_add]
  have fails: "dtw ([] :: real list) [1, 2, 3 :: real] (dtw_table_with euclidean float_add [] [1, 2, 3]) =
      Some (Inl UnboundLocalError)"
    using t [THEN conjunct1] reads by simp
  have cells: "\<forall>i \<le> length ([] :: real list). \<forall>j \<le> length [1, 2, 3 :: real].
       (dtw_table_with euclidean float_add [] [1, 2, 3] ! i ! j \<noteq> PInf) = (i = 0 \<and> j = 0)"
    using t [THEN conjunct2, THEN conjunct2] by simp
  show ?thesis
    using reads fails cells [rule_format, of 0 0] cells [rule_format, of 0 3] by simp
qed

text \<open>
  C6 as stated fails twice. With \<open>X = []\<close> and \<open>Y = [1]\<close> one sequence is empty and the
  backtracker returns the path \<open>[(0,0),(0,1)]\<close>: the candidate \<open>(0,0)\<close> is finite. And on a
  table where the all-infinite state \<open>(1,2)\<close> is reached in the second iteration, \<open>step\<close>
  still holds \<open>(1,2)\<close> from the first one, the state never changes and the loop never
  returns.
\<close>

theorem dtw_all_infinite_counterexample:
  "dtw ([] :: real list) [1 :: real] (dtw_table [] [1]) = Some (Inr [(0, 0), (0, 1)]) \<and>
   dtw [0, 0 :: real] [0, 0 :: real]
       [[Fin 0, PInf, PInf], [PInf, PInf, Fin 0], [PInf, PInf, PInf]] = None"
proof
  show "dtw ([] :: real list) [1 :: real] (dtw_table [] [1]) = Some (Inr [(0, 0), (0, 1)])"
    by (simp add: dtw_table_def dtw_empty_single)
next
  let ?t = "[[Fin 0, PInf, PInf], [PInf, PInf, Fin 0], [PInf, PInf, PInf]]"
  have "dtw_loop ?t 1 2 [(1, 2), (2, 2)] (Some (1, 2)) = None"
    by (rule dtw_loop_stale_step) (simp_all add: dtw_body_def tget_def np_index_def)
  then show "dtw [0, 0 :: real] [0, 0 :: real] ?t = None"
    by (simp add: dtw_def dtw_loop.simps[of _ 2 2] dtw_body_def tget_def np_index_def)
qed

text \<open>
  C7, as amended. For a distance that is never negative, every cell \<open>(i, j)\<close> with
  \<open>i, j \<ge> 1\<close> is at least the minimum of the cells \<open>(i-1,j)\<close>, \<open>(i,j-1)\<close> and \<open>(i-1,j-1)\<close>. Of
  the float addition this uses that adding a value that is not negative does not give a
  smaller result. The cell need not be finite: the addition can overflow to \<open>inf\<close>.
\<close>

theorem monotone_min:
  assumes "\<forall>a b. 0 \<le> distance a b"
    and "\<forall>r v. 0 \<le> r \<longrightarrow> v \<le> fadd (Fin r) v"
    and "1 \<le> i" and "i \<le> length x" and "1 \<le> j" and "j \<le> length y"
  shows "min3 (dtw_table_with distance fadd x y ! (i - 1) ! j)
              (dtw_table_with distance fadd x y ! i ! (j - 1))
              (dtw_table_with distance fadd x y ! (i - 1) ! (j - 1))
         \<le> dtw_table_with distance fadd x y ! i ! j"
proof -
  obtain i' j' where ij: "i = Suc i'" "j = Suc j'"
    using assms(3,5) by (cases i; cases j) auto
  have "dtw_table_with distance fadd x y ! i ! j =
        fadd (Fin (distance (x ! i') (y ! j')))
          (min3 (dtw_table_with distance fadd x y ! (i - 1) ! j)
                (dtw_table_with distance fadd x y ! i ! (j - 1))
                (dtw_table_with distance fadd x y ! (i - 1) ! (j - 1)))"
    using assms(4,6) ij by (simp add: dtw_table_cell)
  then show ?thesis using assms(1,2) by simp
qed

theorem monotone_min_witness:
  "(\<forall>a b. 0 \<le> euclidean a b) \<and> Fin 7 \<le> float_add (Fin 2) (Fin 7) \<and>
   (1::nat) \<le> 2 \<and> 2 \<le> length [0, 5 :: real] \<and>
   min3 (dtw_table_with euclidean float_add [0, 5] [0, 5] ! (2 - 1) ! 2)
        (dtw_table_with euclidean float_add [0, 5] [0, 5] ! 2 ! (2 - 1))
        (dtw_table_with euclidean float_add [0, 5] [0, 5] ! (2 - 1) ! (2 - 1))
   \<le> dtw_table_with euclidean float_add [0, 5] [0, 5] ! 2 ! 2"
proof -
  have e: "\<forall>a b. 0 \<le> euclidean a b" by (simp add: euclidean_def)
  show ?thesis
    using monotone_min [of euclidean float_add 2 "[0, 5]" 2 "[0, 5]", OF e float_add_increasing] e
    by (simp add: float_add_small del: float_add.simps(1))
qed

text \<open>
  C7 as stated fails in both parts. With the maximum of the three cells it fails for
  \<open>X = Y = [0,5]\<close>: cell \<open>(2,2)\<close> is 0 and cell \<open>(1,2)\<close> is 5. And an interior cell need not be
  finite: for \<open>X = [2^1023, 2^1023]\<close> and \<open>Y = [0]\<close> cell \<open>(2,1)\<close> is \<open>2^1023 + 2^1023\<close>, which
  overflows to \<open>inf\<close>.
\<close>

theorem monotone_max_counterexample:
  "\<not> (max (dtw_table [0, 5] [0, 5] ! 1 ! 2)
           (max (dtw_table [0, 5] [0, 5] ! 2 ! 1) (dtw_table [0, 5] [0, 5] ! 1 ! 1))
        \<le> dtw_table [0, 5] [0, 5] ! 2 ! 2) \<and>
   dtw_table [0, 5] [0, 5] ! 2 ! 2 = Fin 0 \<and> dtw_table [0, 5] [0, 5] ! 1 ! 2 = Fin 5 \<and>
   dtw_table [2 ^ 1023, 2 ^ 1023] [0] ! 2 ! 1 = PInf"
proof -
  have a: "dtw_table [0, 5] [0, 5] = [[Fin 0, PInf, PInf], [PInf, Fin 0, Fin 5], [PInf, Fin 5, Fin 0]]"
    by (simp add: dtw_table_def table_defs float_add_small del: float_add.simps(1))
  have b: "dtw_table [2 ^ 1023, 2 ^ 1023] [0] = [[Fin 0, PInf], [PInf, Fin (2 ^ 1023)], [PInf, PInf]]"
    by (simp add: dtw_table_def table_defs)
  show ?thesis unfolding a b by simp
qed

text \<open>
  C8, as amended. The table of \<open>(Y, X)\<close> with the arguments of the distance exchanged is the
  transpose of the table of \<open>(X, Y)\<close>. When the backtracker returns a path on the table of
  \<open>(X, Y)\<close> and at no element \<open>(i, j)\<close> of it with \<open>i, j \<ge> 1\<close> the cells \<open>(i-1,j)\<close> and
  \<open>(i,j-1)\<close> are equal without cell \<open>(i-1,j-1)\<close> being strictly smaller, it returns on
  the table of \<open>(Y, X)\<close> the same path with the coordinates of every element exchanged.
  When it fails on one table it fails on the other. The table part holds whatever the
  float addition does; the path part uses that a finite value plus \<open>inf\<close> is \<open>inf\<close>.
\<close>

theorem dtw_swap_inputs:
  "dtw_table_with (swap_args distance) fadd y x = transpose (dtw_table_with distance fadd x y) \<and>
   (\<forall>i \<le> length x. \<forall>j \<le> length y.
      dtw_table_with (swap_args distance) fadd y x ! j ! i =
      dtw_table_with distance fadd x y ! i ! j) \<and>
   ((\<forall>r. fadd (Fin r) PInf = PInf) \<longrightarrow>
    (\<forall>p. dtw x y (dtw_table_with distance fadd x y) = Some (Inr p) \<and>
         (\<forall>(i, j) \<in> set p. 0 < i \<and> 0 < j \<longrightarrow>
            dtw_table_with distance fadd x y ! nat (i - 1) ! nat j \<noteq>
            dtw_table_with distance fadd x y ! nat i ! nat (j - 1) \<or>
            dtw_table_with distance fadd x y ! nat (i - 1) ! nat (j - 1) <
            dtw_table_with distance fadd x y ! nat (i - 1) ! nat j) \<longrightarrow>
         dtw y x (dtw_table_with (swap_args distance) fadd y x) = Some (Inr (map swap_step p))) \<and>
    (\<forall>e. dtw x y (dtw_table_with distance fadd x y) = Some (Inl e) \<longrightarrow>
         dtw y x (dtw_table_with (swap_args distance) fadd y x) = Some (Inl e)))"
proof (intro conjI allI impI)
  show "dtw_table_with (swap_args distance) fadd y x = transpose (dtw_table_with distance fadd x y)"
    by (rule dtw_table_transpose)
next
  fix i j assume "i \<le> length x" "j \<le> length y"
  then show "dtw_table_with (swap_args distance) fadd y x ! j ! i =
             dtw_table_with distance fadd x y ! i ! j"
    by (rule dtw_table_swap)
next
  fix p
  assume ab: "\<forall>r. fadd (Fin r) PInf = PInf"
    and h: "dtw x y (dtw_table_with distance fadd x y) = Some (Inr p) \<and>
        (\<forall>(i, j) \<in> set p. 0 < i \<and> 0 < j \<longrightarrow>
           dtw_table_with distance fadd x y ! nat (i - 1) ! nat j \<noteq>
           dtw_table_with distance fadd x y ! nat i ! nat (j - 1) \<or>
           dtw_table_with distance fadd x y ! nat (i - 1) ! nat (j - 1) <
           dtw_table_with distance fadd x y ! nat (i - 1) ! nat j)"
  from dtw_result_cases[of x y] consider
      (ne) "x \<noteq> []" "y \<noteq> []" | (ee) "x = []" "y = []"
    | (e1) v where "x = []" "y = [v]" | (s1) v where "x = [v]" "y = []"
    | (e2) "x = []" "2 \<le> length y" | (s2) "2 \<le> length x" "y = []"
    by blast
  then show "dtw y x (dtw_table_with (swap_args distance) fadd y x) = Some (Inr (map swap_step p))"
  proof cases
    case ne
    show ?thesis
      by (rule dtw_swap_nonempty[where fadd = fadd, OF ab ne conjunct1[OF h] conjunct2[OF h]])
  next
    case ee
    then show ?thesis using h by (auto simp: dtw_both_empty swap_step_def)
  next
    case e1
    then show ?thesis using h by (auto simp: dtw_empty_single dtw_single_empty swap_step_def)
  next
    case s1
    then show ?thesis using h by (auto simp: dtw_empty_single dtw_single_empty swap_step_def)
  next
    case e2
    then show ?thesis using h dtw_empty_x[of y distance fadd] by simp
  next
    case s2
    then show ?thesis using h dtw_empty_y[of x distance fadd] by simp
  qed
next
  fix e
  assume ab: "\<forall>r. fadd (Fin r) PInf = PInf"
    and h: "dtw x y (dtw_table_with distance fadd x y) = Some (Inl e)"
  from dtw_result_cases[of x y] consider
      (ne) "x \<noteq> []" "y \<noteq> []" | (ee) "x = []" "y = []"
    | (e1) v where "x = []" "y = [v]" | (s1) v where "x = [v]" "y = []"
    | (e2) "x = []" "2 \<le> length y" | (s2) "2 \<le> length x" "y = []"
    by blast
  then show "dtw y x (dtw_table_with (swap_args distance) fadd y x) = Some (Inl e)"
  proof cases
    case ne
    show ?thesis
      by (rule dtw_swap_error_nonempty[where fadd = fadd, OF ab ne h])
  next
    case ee
    then show ?thesis using h by (simp add: dtw_both_empty)
  next
    case e1
    then show ?thesis using h by (simp add: dtw_empty_single)
  next
    case s1
    then show ?thesis using h by (simp add: dtw_single_empty)
  next
    case e2
    then show ?thesis
      using h dtw_empty_x[of y distance fadd] dtw_empty_y[of y "swap_args distance" fadd] by simp
  next
    case s2
    then show ?thesis
      using h dtw_empty_y[of x distance fadd] dtw_empty_x[of x "swap_args distance" fadd] by simp
  qed
qed

theorem dtw_swap_inputs_witness:
  "(\<forall>r. float_add (Fin r) PInf = PInf) \<and>
   dtw [0, 4, 4 :: real] [1, 3 :: real] (dtw_table_with euclidean float_add [0, 4, 4] [1, 3]) =
     Some (Inr [(0, 0), (1, 1), (2, 2), (3, 2)]) \<and>
   dtw [1, 3 :: real] [0, 4, 4 :: real]
       (dtw_table_with (swap_args euclidean) float_add [1, 3] [0, 4, 4]) =
     Some (Inr [(0, 0), (1, 1), (2, 2), (2, 3)]) \<and>
   dtw_table_with (swap_args euclidean) float_add [1, 3] [0, 4, 4] ! 2 ! 3 =
   dtw_table_with euclidean float_add [0, 4, 4] [1, 3] ! 3 ! 2 \<and>
   dtw ([] :: real list) [1, 2 :: real] (dtw_table_with euclidean float_add [] [1, 2]) =
     Some (Inl UnboundLocalError) \<and>
   dtw [1, 2 :: real] ([] :: real list) (dtw_table_with (swap_args euclidean) float_add [1, 2] []) =
     Some (Inl UnboundLocalError)"
proof -
  let ?p = "[(0, 0), (1, 1), (2, 2), (3, 2)] :: step list"
  have t: "dtw_table_with euclidean float_add [0, 4, 4] [1, 3] =
           [[Fin 0, PInf, PInf], [PInf, Fin 1, Fin 4], [PInf, Fin 4, Fin 2], [PInf, Fin 7, Fin 3]]"
    by (simp add: table_defs float_add_small del: float_add.simps(1))
  have r: "dtw [0, 4, 4 :: real] [1, 3 :: real] (dtw_table_with euclidean float_add [0, 4, 4] [1, 3]) =
           Some (Inr ?p)"
    unfolding t by (simp add: run_defs)
  have n: "\<forall>(i, j) \<in> set ?p. 0 < i \<and> 0 < j \<longrightarrow>
           dtw_table_with euclidean float_add [0, 4, 4] [1, 3] ! nat (i - 1) ! nat j \<noteq>
           dtw_table_with euclidean float_add [0, 4, 4] [1, 3] ! nat i ! nat (j - 1) \<or>
           dtw_table_with euclidean float_add [0, 4, 4] [1, 3] ! nat (i - 1) ! nat (j - 1) <
           dtw_table_with euclidean float_add [0, 4, 4] [1, 3] ! nat (i - 1) ! nat j"
    unfolding t by simp
  note s = dtw_swap_inputs [of euclidean float_add "[1, 3]" "[0, 4, 4]"]
  have "dtw [1, 3 :: real] [0, 4, 4 :: real]
          (dtw_table_with (swap_args euclidean) float_add [1, 3] [0, 4, 4]) =
        Some (Inr (map swap_step ?p))"
    using s r n float_add_absorb by blast
  moreover have "dtw_table_with (swap_args euclidean) float_add [1, 3] [0, 4, 4] ! 2 ! 3 =
                 dtw_table_with euclidean float_add [0, 4, 4] [1, 3] ! 3 ! 2"
    using s [THEN conjunct2, THEN conjunct1, rule_format, of 3 2] by simp
  moreover have e: "dtw ([] :: real list) [1, 2 :: real] (dtw_table_with euclidean float_add [] [1, 2]) =
                    Some (Inl UnboundLocalError)"
    by (simp add: dtw_table_with_def set_left_column_def set_top_row_def zeros_def run_defs)
  moreover have "dtw [1, 2 :: real] ([] :: real list)
                   (dtw_table_with (swap_args euclidean) float_add [1, 2] []) =
                 Some (Inl UnboundLocalError)"
    using dtw_swap_inputs [of euclidean float_add "[1, 2]" "[]"] e float_add_absorb by blast
  ultimately show ?thesis using r float_add_absorb by (simp add: swap_step_def)
qed

text \<open>
  C8 as stated fails for \<open>X = Y = [0,0]\<close>: every interior cell is 0, the tie between
  \<open>(i-1,j)\<close> and \<open>(i,j-1)\<close> goes to \<open>(i-1,j)\<close> on both tables, and the path
  \<open>[(0,0),(1,1),(1,2),(2,2)]\<close> is returned for both, which is not its own mirror image.
\<close>

theorem dtw_swap_path_counterexample:
  "dtw [0, 0 :: real] [0, 0 :: real] (dtw_table_with euclidean float_add [0, 0] [0, 0]) =
     Some (Inr [(0, 0), (1, 1), (1, 2), (2, 2)]) \<and>
   dtw [0, 0 :: real] [0, 0 :: real] (dtw_table_with (swap_args euclidean) float_add [0, 0] [0, 0]) =
     Some (Inr [(0, 0), (1, 1), (1, 2), (2, 2)]) \<and>
   map swap_step [(0, 0), (1, 1), (1, 2), (2, 2)] = [(0, 0), (1, 1), (2, 1), (2, 2)] \<and>
   [(0, 0), (1, 1), (1, 2), (2, 2)] \<noteq> map swap_step [(0, 0), (1, 1), (1, 2), (2, 2)]"
  by (simp add: table_defs swap_args_def run_defs swap_step_def float_add_small
      del: float_add.simps(1))

text \<open>
  C9, as amended. For non-empty \<open>X\<close> and \<open>Y\<close> and the table of \<open>dtw_table\<close> the backtracking
  loop terminates. When the cells \<open>(Nx-1,Ny)\<close>, \<open>(Nx,Ny-1)\<close> and \<open>(Nx-1,Ny-1)\<close> are all
  infinite it fails in its first iteration with \<open>UnboundLocalError\<close>. Otherwise it returns
  a path. Each iteration prepends the state it moves to, so the states are the elements of
  the path and the loop runs \<open>length p - 1\<close> times: from one element to the next \<open>i + j\<close>
  grows by 1 or 2 (it shrinks by as much in each iteration), the loop runs at most
  \<open>Nx + Ny\<close> times, and the path has at least \<open>max(Nx,Ny) + 1\<close> and at most \<open>Nx + Ny + 1\<close>
  elements.
\<close>

theorem dtw_terminates:
  assumes "\<forall>r. fadd (Fin r) PInf = PInf" and "x \<noteq> []" and "y \<noteq> []"
  shows "(min3 (dtw_table_with distance fadd x y ! (length x - 1) ! length y)
               (dtw_table_with distance fadd x y ! length x ! (length y - 1))
               (dtw_table_with distance fadd x y ! (length x - 1) ! (length y - 1)) = PInf \<longrightarrow>
          dtw x y (dtw_table_with distance fadd x y) = Some (Inl UnboundLocalError)) \<and>
         (min3 (dtw_table_with distance fadd x y ! (length x - 1) ! length y)
               (dtw_table_with distance fadd x y ! length x ! (length y - 1))
               (dtw_table_with distance fadd x y ! (length x - 1) ! (length y - 1)) < PInf \<longrightarrow>
          (\<exists>p. dtw x y (dtw_table_with distance fadd x y) = Some (Inr p) \<and>
             successively (\<lambda>s s'. (fst s' + snd s') - (fst s + snd s) \<in> {1, 2}) p \<and>
             length p - 1 \<le> length x + length y \<and>
             max (length x) (length y) + 1 \<le> length p \<and>
             length p \<le> length x + length y + 1))"
proof (intro conjI impI)
  assume "min3 (dtw_table_with distance fadd x y ! (length x - 1) ! length y)
               (dtw_table_with distance fadd x y ! length x ! (length y - 1))
               (dtw_table_with distance fadd x y ! (length x - 1) ! (length y - 1)) = PInf"
  then have "\<not> walkable distance fadd x y (length x) (length y)"
    using assms(2,3) by (simp add: walkable_table)
  then show "dtw x y (dtw_table_with distance fadd x y) = Some (Inl UnboundLocalError)"
    by (rule dtw_no_candidate[OF assms(2,3)])
next
  assume "min3 (dtw_table_with distance fadd x y ! (length x - 1) ! length y)
               (dtw_table_with distance fadd x y ! length x ! (length y - 1))
               (dtw_table_with distance fadd x y ! (length x - 1) ! (length y - 1)) < PInf"
  then have w: "walkable distance fadd x y (length x) (length y)"
    using assms(2,3) by (simp add: walkable_table)
  let ?p = "map of_cell (walk distance fadd x y (length x) (length y)) @
            [(int (length x), int (length y))]"
  have m: "successively (\<lambda>s s'. (fst s' - fst s, snd s' - snd s) \<in> {(1, 0), (0, 1), (1, 1 :: int)}) ?p"
    using walk_moves[where fadd = fadd, OF assms(1) w] .
  have "successively (\<lambda>s s'. (fst s' + snd s') - (fst s + snd s) \<in> {1, 2 :: int}) ?p"
    by (rule successively_mono[OF m]) auto
  moreover have "dtw x y (dtw_table_with distance fadd x y) = Some (Inr ?p)"
    by (rule dtw_nonempty[where fadd = fadd, OF assms(1-3) w])
  moreover have "length ?p = length (walk distance fadd x y (length x) (length y)) + 1" by simp
  ultimately show "\<exists>p. dtw x y (dtw_table_with distance fadd x y) = Some (Inr p) \<and>
             successively (\<lambda>s s'. (fst s' + snd s') - (fst s + snd s) \<in> {1, 2}) p \<and>
             length p - 1 \<le> length x + length y \<and>
             max (length x) (length y) + 1 \<le> length p \<and>
             length p \<le> length x + length y + 1"
    using walk_length[where fadd = fadd, OF assms(1) w]
    by (intro exI[of _ ?p] conjI) (assumption, assumption, linarith+)
qed

theorem dtw_terminates_witness:
  "(\<forall>r. float_add (Fin r) PInf = PInf) \<and> [0, 4 :: real] \<noteq> [] \<and> [1, 3 :: real] \<noteq> [] \<and>
   (\<exists>p. dtw [0, 4 :: real] [1, 3 :: real] (dtw_table_with euclidean float_add [0, 4] [1, 3]) =
          Some (Inr p) \<and>
        3 \<le> length p \<and> length p \<le> 5) \<and>
   dtw [2 ^ 1023, 2 ^ 1023, 2 ^ 1023 :: real] [0 :: real]
       (dtw_table_with euclidean float_add [2 ^ 1023, 2 ^ 1023, 2 ^ 1023] [0]) =
     Some (Inl UnboundLocalError)"
proof -
  have a: "\<exists>p. dtw [0, 4 :: real] [1, 3 :: real] (dtw_table_with euclidean float_add [0, 4] [1, 3]) =
          Some (Inr p) \<and> 3 \<le> length p \<and> length p \<le> 5"
    using dtw_terminates [of float_add "[0, 4 :: real]" "[1, 3 :: real]" euclidean,
        OF float_add_absorb] small_candidates
    by auto
  have t: "dtw_table_with euclidean float_add [2 ^ 1023, 2 ^ 1023, 2 ^ 1023] [0] =
     [[Fin 0, PInf], [PInf, Fin (2 ^ 1023)], [PInf, PInf], [PInf, PInf]]"
    by (simp add: table_defs)
  have b: "dtw [2 ^ 1023, 2 ^ 1023, 2 ^ 1023 :: real] [0 :: real]
       (dtw_table_with euclidean float_add [2 ^ 1023, 2 ^ 1023, 2 ^ 1023] [0]) =
     Some (Inl UnboundLocalError)"
    using dtw_terminates [of float_add "[2 ^ 1023, 2 ^ 1023, 2 ^ 1023 :: real]" "[0 :: real]" euclidean,
        OF float_add_absorb]
    unfolding t by (simp add: min3_def)
  show ?thesis using a b float_add_absorb by simp
qed

text \<open>
  C9 as stated, with a returned path for every non-empty \<open>X\<close> and \<open>Y\<close>, fails when the
  additions overflow: for \<open>X = [2^1023, 2^1023, 2^1023, 2^1023]\<close> and \<open>Y = [0]\<close> the three
  candidates at \<open>(4,1)\<close> are all infinite and the loop ends in its first iteration with
  \<open>UnboundLocalError\<close>; no path is returned.
\<close>

theorem dtw_terminates_counterexample:
  "dtw_table [2 ^ 1023, 2 ^ 1023, 2 ^ 1023, 2 ^ 1023] [0] =
     [[Fin 0, PInf], [PInf, Fin (2 ^ 1023)], [PInf, PInf], [PInf, PInf], [PInf, PInf]] \<and>
   dtw [2 ^ 1023, 2 ^ 1023, 2 ^ 1023, 2 ^ 1023 :: real] [0 :: real]
       (dtw_table [2 ^ 1023, 2 ^ 1023, 2 ^ 1023, 2 ^ 1023] [0]) = Some (Inl UnboundLocalError)"
proof -
  have t: "dtw_table [2 ^ 1023, 2 ^ 1023, 2 ^ 1023, 2 ^ 1023] [0] =
     [[Fin 0, PInf], [PInf, Fin (2 ^ 1023)], [PInf, PInf], [PInf, PInf], [PInf, PInf]]"
    by (simp add: dtw_table_def table_defs)
  show ?thesis unfolding t by (simp add: run_defs)
qed

text \<open>
  C10, as amended. For non-empty \<open>X\<close> and \<open>Y\<close> such that one of the cells \<open>(Nx-1,Ny)\<close>,
  \<open>(Nx,Ny-1)\<close>, \<open>(Nx-1,Ny-1)\<close> of the table of \<open>dtw_table\<close> is finite, the returned path is
  \<open>(0,0)\<close> followed by elements whose coordinates are both at least 1, the first of them
  \<open>(1,1)\<close>: no cell of the border other than \<open>(0,0)\<close> is selected.
\<close>

theorem dtw_path_interior:
  assumes "\<forall>r. fadd (Fin r) PInf = PInf" and "x \<noteq> []" and "y \<noteq> []"
    and "min3 (dtw_table_with distance fadd x y ! (length x - 1) ! length y)
              (dtw_table_with distance fadd x y ! length x ! (length y - 1))
              (dtw_table_with distance fadd x y ! (length x - 1) ! (length y - 1)) < PInf"
  shows "\<exists>q. dtw x y (dtw_table_with distance fadd x y) = Some (Inr ((0, 0) # q)) \<and> q \<noteq> [] \<and>
           (\<forall>s \<in> set q. 1 \<le> fst s \<and> 1 \<le> snd s) \<and> hd q = (1, 1)"
proof -
  have pos: "0 < length x" "0 < length y" using assms by auto
  have w: "walkable distance fadd x y (length x) (length y)"
    using assms(2-4) by (simp add: walkable_table)
  from walk_shape[where fadd = fadd, OF assms(1) pos w] obtain r
    where r: "walk distance fadd x y (length x) (length y) = (0, 0) # r"
      "\<forall>q \<in> set r. 0 < fst q \<and> 0 < snd q" "hd (r @ [(length x, length y)]) = (1, 1)" by blast
  let ?q = "map of_cell r @ [(int (length x), int (length y))]"
  have "dtw x y (dtw_table_with distance fadd x y) = Some (Inr ((0, 0) # ?q))"
    using dtw_nonempty[where fadd = fadd, OF assms(1-3) w] by (simp add: r of_cell_def)
  moreover have "\<forall>s \<in> set ?q. 1 \<le> fst s \<and> 1 \<le> snd s"
    using r(2) pos by (auto simp: of_cell_def Suc_le_eq)
  moreover have "hd ?q = (1, 1)"
    using r(3) by (cases r) (auto simp: of_cell_def)
  ultimately show ?thesis by blast
qed

theorem dtw_path_interior_witness:
  "(\<forall>r. float_add (Fin r) PInf = PInf) \<and> [0, 4 :: real] \<noteq> [] \<and> [1, 3 :: real] \<noteq> [] \<and>
   (\<exists>q. dtw [0, 4 :: real] [1, 3 :: real] (dtw_table_with euclidean float_add [0, 4] [1, 3]) =
          Some (Inr ((0, 0) # q)) \<and>
        hd q = (1, 1))"
  using dtw_path_interior [of float_add "[0, 4 :: real]" "[1, 3 :: real]" euclidean,
      OF float_add_absorb _ _ small_candidates]
    float_add_absorb
  by auto

text \<open>
  C10 as stated, for every non-empty \<open>X\<close> and \<open>Y\<close>, fails when the additions overflow: for
  \<open>X = [0]\<close> and \<open>Y = [2^1023, 2^1023, 2^1023, 2^1023]\<close> the three candidates at \<open>(1,4)\<close> are
  all infinite and the backtracker raises \<open>UnboundLocalError\<close>; there is no path and no
  second element \<open>(1,1)\<close>.
\<close>

theorem dtw_path_interior_counterexample:
  "dtw_table [0] [2 ^ 1023, 2 ^ 1023, 2 ^ 1023, 2 ^ 1023] =
     [[Fin 0, PInf, PInf, PInf, PInf], [PInf, Fin (2 ^ 1023), PInf, PInf, PInf]] \<and>
   dtw [0 :: real] [2 ^ 1023, 2 ^ 1023, 2 ^ 1023, 2 ^ 1023 :: real]
       (dtw_table [0] [2 ^ 1023, 2 ^ 1023, 2 ^ 1023, 2 ^ 1023]) = Some (Inl UnboundLocalError)"
proof -
  have t: "dtw_table [0] [2 ^ 1023, 2 ^ 1023, 2 ^ 1023, 2 ^ 1023] =
     [[Fin 0, PInf, PInf, PInf, PInf], [PInf, Fin (2 ^ 1023), PInf, PInf, PInf]]"
    by (simp add: dtw_table_def table_defs)
  show ?thesis unfolding t by (simp add: run_defs)
qed

end
